theory Spec2Isabelle
  imports Complex_Main
begin

section \<open>Strings, characters and errors\<close>

text \<open>
  The development embeds the pure string functions of
  \<^verbatim>\<open>mathjax3-ts/input/tex/ParseUtil.ts\<close>.  A JavaScript string is modelled as a
  \<open>string\<close> (a list of characters); the characters are the code units \<open>0x00\<close> to
  \<open>0xFF\<close>, which contains every character the functions test for, the no-break
  space \<open>0xA0\<close> included.  The backslash is written \<open>CHR 0x5C\<close>.

  \<^verbatim>\<open>throw new TexError([id, message])\<close> becomes the left summand of a result type.
\<close>

datatype texerror = TexError (err_id: string) (err_message: string)

definition backslash :: char where
  "backslash = CHR 0x5C"

definition NBSP :: char where
  "NBSP = CHR 0xA0"

text \<open>\<^verbatim>\<open>s.charAt(i)\<close>: the one-character string at \<open>i\<close>, the empty string out of range.\<close>

definition charAt :: "string \<Rightarrow> nat \<Rightarrow> string" where
  "charAt s i = (if i < length s then [s ! i] else [])"

text \<open>\<^verbatim>\<open>s.slice(a, b)\<close>, \<^verbatim>\<open>s.substr(a)\<close> and \<^verbatim>\<open>s.substr(0, n)\<close> for indices that are not negative.\<close>

definition slice :: "string \<Rightarrow> nat \<Rightarrow> nat \<Rightarrow> string" where
  "slice s a b = drop a (take b s)"

definition substr_from :: "string \<Rightarrow> nat \<Rightarrow> string" where
  "substr_from s a = drop a s"

definition substr_to :: "string \<Rightarrow> nat \<Rightarrow> string" where
  "substr_to s n = take n s"

text \<open>The character classes of the regular expressions: \<^verbatim>\<open>[a-z]\<close> under the flag \<^verbatim>\<open>i\<close>,
  \<^verbatim>\<open>\d\<close>, \<^verbatim>\<open>[1-9]\<close> and \<^verbatim>\<open>\s\<close> (tab, line feed, vertical tab, form feed, carriage
  return, space and no-break space are the white space below \<open>0x100\<close>).\<close>

definition isLetter :: "char \<Rightarrow> bool" where
  "isLetter c = (c \<in> set ''abcdefghijklmnopqrstuvwxyzABCDEFGHIJKLMNOPQRSTUVWXYZ'')"

definition isDigit :: "char \<Rightarrow> bool" where
  "isDigit c = (c \<in> set ''0123456789'')"

definition isDigit19 :: "char \<Rightarrow> bool" where
  "isDigit19 c = (c \<in> set ''123456789'')"

definition isSpace :: "char \<Rightarrow> bool" where
  "isSpace c = (c \<in> {CHR 0x09, CHR 0x0A, CHR 0x0B, CHR 0x0C, CHR 0x0D, CHR 0x20, CHR 0xA0})"

definition digitVal :: "char \<Rightarrow> nat" where
  "digitVal c = of_char c - 48"

section \<open>Macro argument substitution\<close>

definition MAXBUFFER :: nat where
  "MAXBUFFER = 5 * 1024"

definition MaxBufferSize :: texerror where
  "MaxBufferSize = TexError ''MaxBufferSize''
     ''MathJax internal buffer size exceeded; is there a recursive macro call?''"

definition IllegalMacroParam :: texerror where
  "IllegalMacroParam = TexError ''IllegalMacroParam'' ''Illegal macro parameter reference''"

text \<open>\<^verbatim>\<open>s2.match(/^[a-z]/i)\<close>: the string starts with a letter.\<close>

definition startsWithLetter :: "string \<Rightarrow> bool" where
  "startsWithLetter s2 = (case s2 of [] \<Rightarrow> False | c # _ \<Rightarrow> isLetter c)"

text \<open>
  \<^verbatim>\<open>s1.match(/(^|[^\\])(\\\\)*\\[a-z]+$/i)\<close>: the string ends with one or more letters,
  before them a backslash, before it an even number of further backslashes, and before
  those the start of the string or a character that is no backslash.  Letters are not
  backslashes, so the letters are the longest run of letters at the end, and the
  backslashes before them are the longest run, of odd length.
\<close>

definition endsWithControlWord :: "string \<Rightarrow> bool" where
  "endsWithControlWord s1 =
     (let r = rev s1;
          letters = takeWhile isLetter r;
          slashes = takeWhile (\<lambda>c. c = backslash) (dropWhile isLetter r)
      in letters \<noteq> [] \<and> odd (length slashes))"

text \<open>\<^verbatim>\<open>addArgs(s1, s2)\<close>: the space is appended to \<open>s1\<close> before the lengths are compared.\<close>

definition addArgs :: "string \<Rightarrow> string \<Rightarrow> texerror + string" where
  "addArgs s1 s2 =
     (let s1' = (if startsWithLetter s2 \<and> endsWithControlWord s1 then s1 @ '' '' else s1)
      in if length s1' + length s2 > MAXBUFFER then Inl MaxBufferSize
         else Inr (s1' @ s2))"

text \<open>\<^verbatim>\<open>c.match(/[1-9]/)\<close> for the string \<open>c\<close> that \<open>charAt\<close> returned, and
  \<^verbatim>\<open>parseInt(c, 10)\<close>, which the source evaluates only where that match succeeded,
  on a single digit.\<close>

definition matches19 :: "string \<Rightarrow> bool" where
  "matches19 c = (case c of [] \<Rightarrow> False | d # _ \<Rightarrow> isDigit19 d)"

definition parseInt :: "string \<Rightarrow> nat" where
  "parseInt c = foldl (\<lambda>n d. 10 * n + digitVal d) 0 (takeWhile isDigit c)"

text \<open>
  The \<^verbatim>\<open>while (i < str.length)\<close> loop of \<^verbatim>\<open>substituteArgs\<close>, with its variables
  \<open>i\<close>, \<open>text\<close> and \<open>newstring\<close> as arguments.  Each \<^verbatim>\<open>charAt(i++)\<close> is written with
  the index it reads: \<open>i\<close> for the first, \<open>i + 1\<close> for the second.
\<close>

function substituteArgs_loop ::
  "string list \<Rightarrow> string \<Rightarrow> nat \<Rightarrow> string \<Rightarrow> string \<Rightarrow> texerror + string" where
  "substituteArgs_loop args str i text newstring =
     (if i < length str then
        (if charAt str i = [backslash] then
           substituteArgs_loop args str (i + 2) (text @ charAt str i @ charAt str (i + 1)) newstring
         else if charAt str i = ''#'' then
           (if charAt str (i + 1) = ''#'' then
              substituteArgs_loop args str (i + 2) (text @ charAt str (i + 1)) newstring
            else if \<not> matches19 (charAt str (i + 1)) \<or> parseInt (charAt str (i + 1)) > length args
              then Inl IllegalMacroParam
            else
              (case addArgs newstring text of
                 Inl e \<Rightarrow> Inl e
               | Inr s \<Rightarrow>
                  (case addArgs s (args ! (parseInt (charAt str (i + 1)) - 1)) of
                     Inl e \<Rightarrow> Inl e
                   | Inr newstring' \<Rightarrow> substituteArgs_loop args str (i + 2) [] newstring')))
         else substituteArgs_loop args str (i + 1) (text @ charAt str i) newstring)
      else addArgs newstring text)"
  by pat_completeness auto
termination
  by (relation "measure (\<lambda>(args, str, i, text, newstring). length str - i)") auto

declare substituteArgs_loop.simps [simp del]

definition substituteArgs :: "string list \<Rightarrow> string \<Rightarrow> texerror + string" where
  "substituteArgs args str = substituteArgs_loop args str 0 [] []"

text \<open>The characters that the loop of \<open>substituteArgs\<close> copies one at a time: neither the
  escape character nor the parameter character.\<close>

definition plainChar :: "char \<Rightarrow> bool" where
  "plainChar c = (c \<noteq> backslash \<and> c \<noteq> CHR ''#'')"

section \<open>Dimensions\<close>

text \<open>
  The two regular expressions of the source are
  \<^verbatim>\<open>dimenEnd = ^\s*([-+]?([.,]\d+|\d+([.,]\d*)?))\s*(pt|em|ex|mu|px|mm|cm|in|pc)\s*$\<close> and
  \<^verbatim>\<open>dimenRest\<close>, the same with a single optional space in place of \<^verbatim>\<open>\s*$\<close>.
  They are modelled by a matcher that reads the string from the left, one function for
  each part of the expression.  The expression leaves no choice to backtracking: white
  space, sign, digit, separator and unit letter are disjoint character classes, so each
  greedy run ends where the next part must start, and giving up a character of a run
  leaves a character that the next part cannot match.
\<close>

text \<open>\<^verbatim>\<open>\s*\<close>.\<close>

definition skipSpaces :: "string \<Rightarrow> string" where
  "skipSpaces s = dropWhile isSpace s"

text \<open>\<^verbatim>\<open>[.,]\<close> and \<^verbatim>\<open>[-+]\<close>.\<close>

definition isSeparator :: "char \<Rightarrow> bool" where
  "isSeparator c = (c = CHR ''.'' \<or> c = CHR '','')"

definition isSign :: "char \<Rightarrow> bool" where
  "isSign c = (c = CHR ''-'' \<or> c = CHR ''+'')"

text \<open>\<^verbatim>\<open>[-+]?\<close>: the sign read and the rest of the string.\<close>

definition matchSign :: "string \<Rightarrow> string \<times> string" where
  "matchSign s = (case s of [] \<Rightarrow> ([], []) | c # r \<Rightarrow> if isSign c then ([c], r) else ([], s))"

text \<open>\<^verbatim>\<open>([.,]\d+|\d+([.,]\d*)?)\<close>: the numeral read and the rest, or no match.\<close>

definition matchUnsigned :: "string \<Rightarrow> (string \<times> string) option" where
  "matchUnsigned s =
     (case s of
        [] \<Rightarrow> None
      | c # r \<Rightarrow>
         if isSeparator c then
           (if takeWhile isDigit r = [] then None
            else Some (c # takeWhile isDigit r, dropWhile isDigit r))
         else if isDigit c then
           (case dropWhile isDigit s of
              [] \<Rightarrow> Some (takeWhile isDigit s, [])
            | d # r' \<Rightarrow>
               if isSeparator d
               then Some (takeWhile isDigit s @ d # takeWhile isDigit r', dropWhile isDigit r')
               else Some (takeWhile isDigit s, d # r'))
         else None)"

text \<open>The group \<^verbatim>\<open>num\<close>, which is \<^verbatim>\<open>match[1]\<close>.\<close>

definition matchNum :: "string \<Rightarrow> (string \<times> string) option" where
  "matchNum s =
     (case matchSign s of (sign, s') \<Rightarrow>
        (case matchUnsigned s' of
           None \<Rightarrow> None
         | Some (n, r) \<Rightarrow> Some (sign @ n, r)))"

text \<open>The group \<^verbatim>\<open>unit\<close>, which is \<^verbatim>\<open>match[4]\<close>; every alternative has two letters.\<close>

definition units :: "string list" where
  "units = [''pt'', ''em'', ''ex'', ''mu'', ''px'', ''mm'', ''cm'', ''in'', ''pc'']"

definition matchUnit :: "string \<Rightarrow> (string \<times> string) option" where
  "matchUnit s = (if take 2 s \<in> set units then Some (take 2 s, drop 2 s) else None)"

text \<open>The common start \<^verbatim>\<open>^\s*num\s*unit\<close> of both expressions: numeral, unit and what is
  left of the string.\<close>

definition dimenPrefix :: "string \<Rightarrow> (string \<times> string \<times> string) option" where
  "dimenPrefix dimen =
     (case matchNum (skipSpaces dimen) of
        None \<Rightarrow> None
      | Some (n, r) \<Rightarrow>
         (case matchUnit (skipSpaces r) of
            None \<Rightarrow> None
          | Some (u, r') \<Rightarrow> Some (n, u, r')))"

text \<open>The result of \<^verbatim>\<open>dim.match(...)\<close> is \<open>None\<close> for \<^verbatim>\<open>null\<close>, else the groups the source
  reads: \<^verbatim>\<open>match[0]\<close>, \<^verbatim>\<open>match[1]\<close> and \<^verbatim>\<open>match[4]\<close>.  Under \<^verbatim>\<open>\s*$\<close> the match is the
  whole string; under \<^verbatim>\<open> ?\<close> it ends behind the unit and one space, if there is one.\<close>

definition dimenEnd :: "string \<Rightarrow> (string \<times> string \<times> string) option" where
  "dimenEnd dimen =
     (case dimenPrefix dimen of
        None \<Rightarrow> None
      | Some (n, u, r) \<Rightarrow> if skipSpaces r = [] then Some (dimen, n, u) else None)"

definition dimenRest :: "string \<Rightarrow> (string \<times> string \<times> string) option" where
  "dimenRest dimen =
     (case dimenPrefix dimen of
        None \<Rightarrow> None
      | Some (n, u, r) \<Rightarrow>
         (let r' = (case r of [] \<Rightarrow> [] | c # t \<Rightarrow> if c = CHR '' '' then t else r)
          in Some (take (length dimen - length r') dimen, n, u)))"

text \<open>\<^verbatim>\<open>.replace(/,/, '.')\<close>: the first comma becomes a point.\<close>

fun replaceComma :: "string \<Rightarrow> string" where
  "replaceComma [] = []"
| "replaceComma (c # cs) = (if c = CHR '','' then CHR ''.'' # cs else c # replaceComma cs)"

text \<open>\<^verbatim>\<open>matchDimen(dim, rest)\<close>; the source's \<^verbatim>\<open>[null, null, 0]\<close> is \<open>(None, None, 0)\<close>.\<close>

definition matchDimen :: "string \<Rightarrow> bool \<Rightarrow> string option \<times> string option \<times> nat" where
  "matchDimen dimen rest =
     (case (if rest then dimenRest dimen else dimenEnd dimen) of
        Some (m0, m1, m4) \<Rightarrow> (Some (replaceComma m1), Some m4, length m0)
      | None \<Rightarrow> (None, None, 0))"

text \<open>The parts of a dimension literal, for the statements below: an optional sign, and
  an optional separator with the digits behind it; what may follow a run of digits, and
  what may follow a numeral.\<close>

definition isSignPart :: "string \<Rightarrow> bool" where
  "isSignPart sg = (sg = [] \<or> sg = ''+'' \<or> sg = ''-'')"

definition isFractionPart :: "string \<Rightarrow> bool" where
  "isFractionPart fr = (case fr of [] \<Rightarrow> True | sep # fp \<Rightarrow> isSeparator sep \<and> list_all isDigit fp)"

definition noDigitAhead :: "string \<Rightarrow> bool" where
  "noDigitAhead s = (case s of [] \<Rightarrow> True | c # _ \<Rightarrow> \<not> isDigit c)"

definition noNumberAhead :: "string \<Rightarrow> bool" where
  "noNumberAhead s = (case s of [] \<Rightarrow> True | c # _ \<Rightarrow> \<not> isDigit c \<and> \<not> isSeparator c)"

section \<open>Text and math blocks\<close>

subsection \<open>Nodes and the parser\<close>

text \<open>The values of node attributes: a string, a boolean, or the script level, which
  \<^verbatim>\<open>internalMath\<close> receives as a number or a string and passes on unchanged.\<close>

datatype attrval = AString string | ABool bool | ANumber int

type_synonym attributes = "(string \<times> attrval) list"

text \<open>
  Modelled from the spec: the Tree Builder (\<^verbatim>\<open>TreeHelper.createText\<close> and
  \<^verbatim>\<open>TreeHelper.createNode\<close>, imported from \<^verbatim>\<open>TreeHelper.js\<close>, which is not among the
  sources) "materializes text/group nodes": \<^verbatim>\<open>makeTextLeaf(content, attributes)\<close> gives a
  leaf, \<^verbatim>\<open>makeGroup(kind, children, attributes)\<close> a branch.  A node is the free term of
  what it was made from: its kind, children, attributes and optional text child.
\<close>

datatype mmlnode =
    TextNode string
  | MmlNode string "mmlnode list" attributes "mmlnode option"

definition createText :: "string \<Rightarrow> mmlnode" where
  "createText s = TextNode s"

definition createNode :: "string \<Rightarrow> mmlnode list \<Rightarrow> attributes \<Rightarrow> mmlnode option \<Rightarrow> mmlnode" where
  "createNode kind children def textNode = MmlNode kind children def textNode"

text \<open>
  \<^verbatim>\<open>new TexParser(s, {}).mml()\<close> is the Notation Parser, a collaborator outside the
  sources: it is a parameter \<open>parse\<close> of the functions below, a function from the
  substring to the tree or to the \<^verbatim>\<open>TexError\<close> it throws.  For statements about
  concrete inputs, \<open>leafParser\<close> is one such parser: it returns the substring it was
  handed as an \<^verbatim>\<open>mi\<close> leaf, so that the result shows which substring was parsed.
\<close>

type_synonym parser = "string \<Rightarrow> texerror + mmlnode"

definition leafParser :: parser where
  "leafParser s = Inr (createNode ''mi'' [] [] (Some (createText s)))"

definition MathNotTerminated :: texerror where
  "MathNotTerminated = TexError ''MathNotTerminated'' ''Math not terminated in text box''"

subsection \<open>Regular expressions of the scanner\<close>

text \<open>\<^verbatim>\<open>[${}\\]\<close>, as a test on a character and, for \<^verbatim>\<open>c.match(/[${}\\]/)\<close>, on the string
  that \<open>charAt\<close> returned.\<close>

definition isTrigger :: "char \<Rightarrow> bool" where
  "isTrigger c = (c = CHR ''$'' \<or> c = CHR ''{'' \<or> c = CHR ''}'' \<or> c = backslash)"

definition matchesTrigger :: "string \<Rightarrow> bool" where
  "matchesTrigger c = (case c of [] \<Rightarrow> False | d # _ \<Rightarrow> isTrigger d)"

text \<open>\<^verbatim>\<open>s.match(/^(eq)?ref\s*\{/)\<close>: the length of the match (\<^verbatim>\<open>RegExp['$&'].length\<close>), or
  \<open>None\<close>.  A string that starts with \<^verbatim>\<open>eq\<close> does not start with \<^verbatim>\<open>ref\<close>, so the optional
  group is taken exactly when it is there.\<close>

definition refMatch :: "string \<Rightarrow> nat option" where
  "refMatch s =
     (let s1 = (if take 2 s = ''eq'' then drop 2 s else s) in
      if take 3 s1 = ''ref'' then
        (case skipSpaces (drop 3 s1) of
           [] \<Rightarrow> None
         | c # r \<Rightarrow> if c = CHR ''{'' then Some (length s - length r) else None)
      else None)"

text \<open>\<^verbatim>\<open>text.match(/\\?[${}\\]|\\\(|\\(eq)?ref\s*\{/)\<close>: one of the three alternatives matches
  at the start of \<open>s\<close> (\<open>triggerAt\<close>), for some position of the text (\<open>hasTrigger\<close>).\<close>

definition triggerAt :: "string \<Rightarrow> bool" where
  "triggerAt s =
     (case s of
        [] \<Rightarrow> False
      | c # r \<Rightarrow>
          (c = backslash \<and> matchesTrigger r) \<or> isTrigger c
          \<or> (c = backslash \<and> take 1 r = ''('')
          \<or> (c = backslash \<and> refMatch r \<noteq> None))"

fun hasTrigger :: "string \<Rightarrow> bool" where
  "hasTrigger [] = False"
| "hasTrigger (c # cs) = (triggerAt (c # cs) \<or> hasTrigger cs)"

subsection \<open>\<^verbatim>\<open>internalText\<close>\<close>

text \<open>\<^verbatim>\<open>text.replace(/^\s+/, NBSP)\<close> and \<^verbatim>\<open>.replace(/\s+$/, NBSP)\<close>: the run of white space at
  the start, and then the one at the end, becomes one no-break space.\<close>

definition replaceLeading :: "string \<Rightarrow> string" where
  "replaceLeading s =
     (case s of [] \<Rightarrow> [] | c # _ \<Rightarrow> if isSpace c then NBSP # dropWhile isSpace s else s)"

definition replaceTrailing :: "string \<Rightarrow> string" where
  "replaceTrailing s =
     (case rev s of
        [] \<Rightarrow> []
      | c # _ \<Rightarrow> if isSpace c then rev (dropWhile isSpace (rev s)) @ [NBSP] else s)"

definition internalText :: "string \<Rightarrow> attributes \<Rightarrow> mmlnode" where
  "internalText s def =
     createNode ''mtext'' [] def (Some (createText (replaceTrailing (replaceLeading s))))"

subsection \<open>\<^verbatim>\<open>internalMath\<close>\<close>

text \<open>The local variables of \<^verbatim>\<open>internalMath\<close> that the loop changes; \<open>text\<close> is one of
  them, since the loop removes backslashes from it.\<close>

record scan =
  st_text :: string
  st_mml :: "mmlnode list"
  st_i :: nat
  st_k :: nat
  st_match :: string
  st_braces :: nat

text \<open>\<^verbatim>\<open>if (k < e) mml.push(internalText(text.slice(k, e), def))\<close>.\<close>

definition pushText :: "attributes \<Rightarrow> scan \<Rightarrow> nat \<Rightarrow> mmlnode list" where
  "pushText def s e =
     (if st_k s < e then st_mml s @ [internalText (slice (st_text s) (st_k s) e) def]
      else st_mml s)"

text \<open>
  One pass through the body of \<^verbatim>\<open>while (i < text.length)\<close>, from a state with
  \<open>i < text.length\<close>.  The source increments \<open>i\<close> when it reads a character; below,
  \<open>i\<close> is the value after \<^verbatim>\<open>c = text.charAt(i++)\<close>, and \<open>i + 1\<close> the value after the
  second \<^verbatim>\<open>c = text.charAt(i++)\<close> of the backslash branch, so that \<^verbatim>\<open>i - 1\<close> and \<^verbatim>\<open>i - 2\<close>
  of the source are \<open>i - 1\<close> and \<open>i + 1 - 2\<close> here.  A parser that throws ends the scan
  with its error.
\<close>

definition step :: "parser \<Rightarrow> attributes \<Rightarrow> scan \<Rightarrow> texerror + scan" where
  "step parse def s =
     (let c = charAt (st_text s) (st_i s); i = st_i s + 1 in
      if c = ''$'' then
        (if st_match s = ''$'' \<and> st_braces s = 0 then
           (case parse (slice (st_text s) (st_k s) (i - 1)) of
              Inl e \<Rightarrow> Inl e
            | Inr t \<Rightarrow>
               Inr (s\<lparr>st_mml := st_mml s @ [createNode ''TeXAtom'' [t] [] None],
                      st_match := [], st_k := i, st_i := i\<rparr>))
         else if st_match s = [] then
           Inr (s\<lparr>st_mml := pushText def s (i - 1), st_match := ''$'', st_k := i, st_i := i\<rparr>)
         else Inr (s\<lparr>st_i := i\<rparr>))
      else if c = ''{'' \<and> st_match s \<noteq> [] then
        Inr (s\<lparr>st_braces := st_braces s + 1, st_i := i\<rparr>)
      else if c = ''}'' then
        (if st_match s = ''}'' \<and> st_braces s = 0 then
           (case parse (slice (st_text s) (st_k s) i) of
              Inl e \<Rightarrow> Inl e
            | Inr t \<Rightarrow>
               Inr (s\<lparr>st_mml := st_mml s @ [createNode ''TeXAtom'' [t] def None],
                      st_match := [], st_k := i, st_i := i\<rparr>))
         else if st_match s \<noteq> [] then
           (if st_braces s \<noteq> 0 then Inr (s\<lparr>st_braces := st_braces s - 1, st_i := i\<rparr>)
            else Inr (s\<lparr>st_i := i\<rparr>))
         else Inr (s\<lparr>st_i := i\<rparr>))
      else if c = [backslash] then
        (case (if st_match s = [] then refMatch (substr_from (st_text s) i) else None) of
           Some len \<Rightarrow>
             Inr (s\<lparr>st_mml := pushText def s (i - 1), st_match := ''}'', st_k := i - 1,
                    st_i := i + len\<rparr>)
         | None \<Rightarrow>
            (let c = charAt (st_text s) i in
             if c = ''('' \<and> st_match s = [] then
               Inr (s\<lparr>st_mml := pushText def s (i + 1 - 2), st_match := '')'', st_k := i + 1,
                      st_i := i + 1\<rparr>)
             else if c = '')'' \<and> st_match s = '')'' \<and> st_braces s = 0 then
               (case parse (slice (st_text s) (st_k s) (i + 1 - 2)) of
                  Inl e \<Rightarrow> Inl e
                | Inr t \<Rightarrow>
                   Inr (s\<lparr>st_mml := st_mml s @ [createNode ''TeXAtom'' [t] [] None],
                          st_match := [], st_k := i + 1, st_i := i + 1\<rparr>))
             else if matchesTrigger c \<and> st_match s = [] then
               Inr (s\<lparr>st_text := substr_to (st_text s) (i - 1) @ substr_from (st_text s) i,
                      st_i := i\<rparr>)
             else Inr (s\<lparr>st_i := i + 1\<rparr>)))
      else Inr (s\<lparr>st_i := i\<rparr>))"

text \<open>The loop: it ends when \<open>i\<close> has reached the length of the text as it is then, or
  with the error of the parser.\<close>

function internalMath_loop :: "parser \<Rightarrow> attributes \<Rightarrow> scan \<Rightarrow> texerror + scan" where
  "internalMath_loop parse def s =
     (if st_i s < length (st_text s) then
        (case step parse def s of
           Inl e \<Rightarrow> Inl e
         | Inr s' \<Rightarrow> internalMath_loop parse def s')
      else Inr s)"
  by pat_completeness auto
termination
proof (relation "measure (\<lambda>(parse, def, s). length (st_text s) - st_i s)")
  show "wf (measure (\<lambda>(parse, def, s). length (st_text s) - st_i s))"
    by simp
next
  fix parse :: parser and def :: attributes and s s' :: scan
  assume run: "st_i s < length (st_text s)" and st: "step parse def s = Inr s'"
  have "st_i s < st_i s' \<and> st_text s' = st_text s
        \<or> st_i s' = st_i s + 1 \<and> length (st_text s') + 1 = length (st_text s)"
    using st run
    by (auto simp: step_def Let_def substr_to_def substr_from_def
        split: if_splits sum.splits option.splits)
  then have "length (st_text s') - st_i s' < length (st_text s) - st_i s"
    using run by auto
  then show "((parse, def, s'), (parse, def, s)) \<in> measure (\<lambda>(parse, def, s). length (st_text s) - st_i s)"
    by simp
qed

declare internalMath_loop.simps [simp del]

text \<open>The variables before the loop: \<^verbatim>\<open>mml = [], i = 0, k = 0, match = '', braces = 0\<close>.\<close>

definition initial :: "string \<Rightarrow> scan" where
  "initial s = \<lparr>st_text = s, st_mml = [], st_i = 0, st_k = 0, st_match = [], st_braces = 0\<rparr>"

text \<open>\<^verbatim>\<open>def\<close>: the font of the environment is \<^verbatim>\<open>undefined\<close> (\<open>None\<close>) or a string, and the
  empty string counts as false.\<close>

definition fontDef :: "string option \<Rightarrow> attributes" where
  "fontDef font =
     (case font of
        None \<Rightarrow> []
      | Some f \<Rightarrow> if f = [] then [] else [(''mathvariant'', AString f)])"

text \<open>The scan, up to and including the test for an open block: the loop runs only on a
  text that the trigger expression matches.\<close>

definition scanText :: "parser \<Rightarrow> attributes \<Rightarrow> string \<Rightarrow> texerror + scan" where
  "scanText parse def s =
     (if hasTrigger s then
        (case internalMath_loop parse def (initial s) of
           Inl e \<Rightarrow> Inl e
         | Inr s' \<Rightarrow> if st_match s' \<noteq> [] then Inl MathNotTerminated else Inr s')
      else Inr (initial s))"

text \<open>The blocks of the text, in order: what \<^verbatim>\<open>mml\<close> holds after the rest of the text has
  been pushed (\<^verbatim>\<open>if (k < text.length) mml.push(internalText(text.slice(k), def))\<close>), before
  they are wrapped.\<close>

definition segments :: "parser \<Rightarrow> string option \<Rightarrow> string \<Rightarrow> texerror + mmlnode list" where
  "segments parse font s =
     (case scanText parse (fontDef font) s of
        Inl e \<Rightarrow> Inl e
      | Inr s' \<Rightarrow> Inr (pushText (fontDef font) s' (length (st_text s'))))"

text \<open>\<^verbatim>\<open>internalMath(parser, text, level)\<close>; \<open>level\<close> is \<open>None\<close> for \<^verbatim>\<open>null\<close> and
  \<^verbatim>\<open>undefined\<close>.\<close>

definition internalMath ::
  "parser \<Rightarrow> string option \<Rightarrow> string \<Rightarrow> attrval option \<Rightarrow> texerror + mmlnode list" where
  "internalMath parse font s level =
     (case segments parse font s of
        Inl e \<Rightarrow> Inl e
      | Inr mml \<Rightarrow>
         (case level of
            Some l \<Rightarrow>
              Inr [createNode ''mstyle'' mml
                     [(''displaystyle'', ABool False), (''scriptlevel'', l)] None]
          | None \<Rightarrow>
              if length mml > 1 then Inr [createNode ''mrow'' mml [] None] else Inr mml))"

subsection \<open>Notions for the statements about the scanner\<close>

text \<open>A stretch of text without any of the four characters that the loop reacts to, and
  the block that \<^verbatim>\<open>if (k < e) mml.push(internalText(...))\<close> adds for a stretch of text: none
  for the empty one.\<close>

definition inert :: "string \<Rightarrow> bool" where
  "inert s = list_all (\<lambda>c. \<not> isTrigger c) s"

definition textBlock :: "string \<Rightarrow> attributes \<Rightarrow> mmlnode list" where
  "textBlock s def = (if s = [] then [] else [internalText s def])"

section \<open>Numbers, \<^verbatim>\<open>dimen2em\<close> and \<^verbatim>\<open>Em\<close>\<close>

subsection \<open>JavaScript numbers\<close>

text \<open>
  A JavaScript number is an IEEE 754 double: here the rational number that the double
  stands for, one of the two infinities, or \<^verbatim>\<open>NaN\<close>.  The negative zero is not told apart
  from zero; the functions below divide by constants other than zero only, and neither
  \<^verbatim>\<open>==\<close> nor \<^verbatim>\<open><\<close> nor \<^verbatim>\<open>toFixed\<close> tells the two zeros apart.
\<close>

datatype jsnumber = Finite rat | PosInfinity | NegInfinity | NaN

definition pow2 :: "int \<Rightarrow> rat" where
  "pow2 e = (if 0 \<le> e then 2 ^ nat e else 1 / 2 ^ nat (- e))"

definition pow10 :: "int \<Rightarrow> rat" where
  "pow10 e = (if 0 \<le> e then 10 ^ nat e else 1 / 10 ^ nat (- e))"

text \<open>The binary exponent of a positive rational \<open>a\<close>, the \<open>e\<close> with \<open>2 ^ e \<le> a < 2 ^ (e + 1)\<close>,
  found by halving or doubling; the count stops at 1100, beyond the exponents of all
  doubles, where the rounding below gives an infinity or the smallest exponent
  anyway.\<close>

fun halvings :: "nat \<Rightarrow> rat \<Rightarrow> int" where
  "halvings 0 a = 0"
| "halvings (Suc n) a = (if a < 2 then 0 else 1 + halvings n (a / 2))"

fun doublings :: "nat \<Rightarrow> rat \<Rightarrow> int" where
  "doublings 0 a = 0"
| "doublings (Suc n) a = (if 1 \<le> a then 0 else doublings n (a * 2) - 1)"

definition exponentOf :: "rat \<Rightarrow> int" where
  "exponentOf a = (if 1 \<le> a then halvings 1100 a else doublings 1100 a)"

definition roundHalfEven :: "rat \<Rightarrow> int" where
  "roundHalfEven y =
     (let f = \<lfloor>y\<rfloor>; r = y - of_int f
      in if r < 1 / 2 then f else if 1 / 2 < r then f + 1 else if even f then f else f + 1)"

text \<open>
  The number value for a rational \<open>x\<close>: the double nearest to \<open>x\<close>, the one with the even
  significand when two are equally near, an infinity from \<open>2 ^ 1024\<close> on.  A double is a
  multiple of \<open>2 ^ (e - 52)\<close> for its exponent \<open>e\<close>, which is at least \<open>- 1022\<close>.
\<close>

definition numberValue :: "rat \<Rightarrow> jsnumber" where
  "numberValue x =
     (if x = 0 then Finite 0
      else
        (let a = \<bar>x\<bar>;
             e = max (exponentOf a) (- 1022);
             q = pow2 (e - 52);
             r = of_int (roundHalfEven (a / q)) * q
         in if pow2 1024 \<le> r then (if 0 < x then PosInfinity else NegInfinity)
            else Finite (if 0 < x then r else - r)))"

definition isNegative :: "jsnumber \<Rightarrow> bool" where
  "isNegative a = (case a of Finite x \<Rightarrow> x < 0 | NegInfinity \<Rightarrow> True | _ \<Rightarrow> False)"

definition infinity :: "bool \<Rightarrow> jsnumber" where
  "infinity negative = (if negative then NegInfinity else PosInfinity)"

text \<open>\<^verbatim>\<open>a * b\<close>, \<^verbatim>\<open>a / b\<close>, \<^verbatim>\<open>Math.abs(a)\<close> and \<^verbatim>\<open>a < b\<close>.\<close>

definition jsMul :: "jsnumber \<Rightarrow> jsnumber \<Rightarrow> jsnumber" where
  "jsMul a b =
     (if a = NaN \<or> b = NaN then NaN
      else
        (case (a, b) of
           (Finite x, Finite y) \<Rightarrow> numberValue (x * y)
         | _ \<Rightarrow> if a = Finite 0 \<or> b = Finite 0 then NaN
                else infinity (isNegative a \<noteq> isNegative b)))"

definition jsDiv :: "jsnumber \<Rightarrow> jsnumber \<Rightarrow> jsnumber" where
  "jsDiv a b =
     (if a = NaN \<or> b = NaN then NaN
      else
        (case (a, b) of
           (Finite x, Finite y) \<Rightarrow>
             if y = 0 then (if x = 0 then NaN else infinity (x < 0)) else numberValue (x / y)
         | (Finite x, _) \<Rightarrow> Finite 0
         | (_, Finite y) \<Rightarrow> infinity (isNegative a \<noteq> (y < 0))
         | _ \<Rightarrow> NaN))"

definition jsAbs :: "jsnumber \<Rightarrow> jsnumber" where
  "jsAbs a = (case a of Finite x \<Rightarrow> Finite \<bar>x\<bar> | NegInfinity \<Rightarrow> PosInfinity | _ \<Rightarrow> a)"

definition jsLess :: "jsnumber \<Rightarrow> jsnumber \<Rightarrow> bool" where
  "jsLess a b =
     (case (a, b) of
        (Finite x, Finite y) \<Rightarrow> x < y
      | (Finite x, PosInfinity) \<Rightarrow> True
      | (NegInfinity, Finite y) \<Rightarrow> True
      | (NegInfinity, PosInfinity) \<Rightarrow> True
      | _ \<Rightarrow> False)"

subsection \<open>\<^verbatim>\<open>parseFloat\<close>\<close>

definition digitsValue :: "string \<Rightarrow> nat" where
  "digitsValue ds = foldl (\<lambda>n d. 10 * n + digitVal d) 0 ds"

text \<open>The exponent part \<^verbatim>\<open>[eE][+-]?\d+\<close> at the start of a string, 0 when there is none.\<close>

definition exponentPart :: "string \<Rightarrow> int" where
  "exponentPart r =
     (if take 1 r = ''e'' \<or> take 1 r = ''E'' then
        (let r' = drop 1 r;
             ds = takeWhile isDigit (if take 1 r' = ''-'' \<or> take 1 r' = ''+'' then drop 1 r' else r')
         in if ds = [] then 0
            else if take 1 r' = ''-'' then - int (digitsValue ds) else int (digitsValue ds))
      else 0)"

text \<open>
  \<^verbatim>\<open>parseFloat(s)\<close>: white space at the start is dropped, then the longest start that is
  a decimal literal is read (a sign, then \<^verbatim>\<open>Infinity\<close> or digits with an optional point,
  further digits and exponent part), and its value is rounded to a double; \<^verbatim>\<open>NaN\<close> when
  there are neither digits before nor behind the point.
\<close>

definition parseFloat :: "string \<Rightarrow> jsnumber" where
  "parseFloat s =
     (let t = dropWhile isSpace s;
          negative = (take 1 t = ''-'');
          u = (if take 1 t = ''-'' \<or> take 1 t = ''+'' then drop 1 t else t)
      in if take 8 u = ''Infinity'' then infinity negative
         else
           (let ip = takeWhile isDigit u;
                r1 = dropWhile isDigit u;
                point = (take 1 r1 = ''.'');
                fp = (if point then takeWhile isDigit (drop 1 r1) else []);
                r2 = (if point then dropWhile isDigit (drop 1 r1) else r1)
            in if ip = [] \<and> fp = [] then NaN
               else numberValue ((if negative then - 1 else 1) * of_nat (digitsValue (ip @ fp))
                                 * pow10 (exponentPart r2 - int (length fp)))))"

subsection \<open>\<^verbatim>\<open>dimen2em\<close>\<close>

definition emPerInch :: jsnumber where
  "emPerInch = numberValue (72 / 10)"

definition pxPerInch :: jsnumber where
  "pxPerInch = Finite 72"

text \<open>The table \<^verbatim>\<open>UNIT_CASES\<close>; the constants \<^verbatim>\<open>.43\<close>, \<^verbatim>\<open>1.2\<close>, \<^verbatim>\<open>2.54\<close> and \<^verbatim>\<open>25.4\<close> are the
  doubles nearest to these decimals.  A key that is not in the table gives \<open>None\<close>
  (\<^verbatim>\<open>undefined\<close>).\<close>

definition UNIT_CASES :: "string \<Rightarrow> (jsnumber \<Rightarrow> jsnumber) option" where
  "UNIT_CASES key =
     (if key = ''em'' then Some (\<lambda>m. m)
      else if key = ''ex'' then Some (\<lambda>m. jsMul m (numberValue (43 / 100)))
      else if key = ''pt'' then Some (\<lambda>m. jsDiv m (Finite 10))
      else if key = ''pc'' then Some (\<lambda>m. jsMul m (numberValue (12 / 10)))
      else if key = ''px'' then Some (\<lambda>m. jsDiv (jsMul m emPerInch) pxPerInch)
      else if key = ''in'' then Some (\<lambda>m. jsMul m emPerInch)
      else if key = ''cm'' then Some (\<lambda>m. jsDiv (jsMul m emPerInch) (numberValue (254 / 100)))
      else if key = ''mm'' then Some (\<lambda>m. jsDiv (jsMul m emPerInch) (numberValue (254 / 10)))
      else if key = ''mu'' then Some (\<lambda>m. jsDiv m (Finite 18))
      else None)"

text \<open>\<^verbatim>\<open>parseFloat(value || '1')\<close>: the magnitude \<open>m\<close> of \<^verbatim>\<open>dimen2em\<close>, for the first component
  of the result of \<open>matchDimen\<close>; \<^verbatim>\<open>null\<close> and the empty string count as false.\<close>

definition magnitude :: "string option \<Rightarrow> jsnumber" where
  "magnitude v =
     parseFloat (case v of None \<Rightarrow> ''1'' | Some s \<Rightarrow> if s = [] then ''1'' else s)"

text \<open>\<^verbatim>\<open>dimen2em(dim)\<close>; \<^verbatim>\<open>UNIT_CASES[unit]\<close> for the unit \<^verbatim>\<open>null\<close> is \<^verbatim>\<open>undefined\<close>.\<close>

definition dimen2em :: "string \<Rightarrow> jsnumber" where
  "dimen2em dimen =
     (case matchDimen dimen False of
        (v, unit, _) \<Rightarrow>
          (let m = magnitude v;
               func = (case unit of None \<Rightarrow> None | Some u \<Rightarrow> UNIT_CASES u)
           in case func of Some f \<Rightarrow> f m | None \<Rightarrow> Finite 0))"

subsection \<open>\<^verbatim>\<open>Em\<close>\<close>

text \<open>The decimal digits of a natural number.\<close>

definition digitChar :: "nat \<Rightarrow> char" where
  "digitChar d = ''0123456789'' ! (d mod 10)"

function showNat :: "nat \<Rightarrow> string" where
  "showNat n = (if n < 10 then [digitChar n] else showNat (n div 10) @ [digitChar (n mod 10)])"
  by pat_completeness auto
termination
  by (relation "measure (\<lambda>n. n)") auto

declare showNat.simps [simp del]

text \<open>
  \<^verbatim>\<open>Number.prototype.toString\<close> for a double \<open>x\<close> of at least \<open>10 ^ 21\<close>, which is an
  integer.  The language takes integers \<open>n\<close>, \<open>k\<close> and \<open>s\<close> with \<open>10 ^ (k - 1) \<le> s < 10 ^ k\<close>
  for which \<open>s * 10 ^ (n - k)\<close> rounds to \<open>x\<close>, with \<open>k\<close> as small as possible, and among
  these the \<open>s\<close> for which \<open>s * 10 ^ (n - k)\<close> is nearest to \<open>x\<close>, the even one if two are
  equally near; it writes the digits of \<open>s\<close>, a point behind the first if there are
  more, and \<^verbatim>\<open>e+\<close> with \<open>n - 1\<close>.

  \<open>shortestDigits x n k\<close> lists the \<open>s\<close> for given \<open>n\<close> and \<open>k\<close>, the nearest first: only the two
  multiples of \<open>10 ^ (n - k)\<close> around \<open>x\<close> can be nearest.  With \<open>d\<close> the number of digits of
  \<open>x\<close>, the number \<open>s * 10 ^ (n - k)\<close> has \<open>n\<close> digits, so \<open>n\<close> is \<open>d\<close>, or \<open>d + 1\<close> when a power of
  ten above \<open>x\<close> rounds down to \<open>x\<close> (as \<open>10 ^ 23\<close> does); both are tried for each \<open>k\<close>.  The
  two cannot both give an \<open>s\<close> for the smallest \<open>k\<close>: with \<open>d + 1\<close> that \<open>k\<close> is 1 and the number
  is \<open>10 ^ d\<close>, and the next number with one digit and \<open>d\<close> places is \<open>9 * 10 ^ (d - 1)\<close>, too
  far from \<open>10 ^ d\<close> to round to the same double.  17 digits tell any two doubles apart, so
  \<open>k\<close> is at most 17.
\<close>

definition shortestDigits :: "rat \<Rightarrow> nat \<Rightarrow> nat \<Rightarrow> nat list" where
  "shortestDigits x n k =
     (let p = 10 ^ (n - k); s = nat \<lfloor>x / of_nat p\<rfloor>
      in filter (\<lambda>c. 10 ^ (k - 1) \<le> c \<and> c < 10 ^ k \<and> numberValue (of_nat (c * p)) = Finite x)
           (if \<bar>of_nat (s * p) - x\<bar> < \<bar>of_nat ((s + 1) * p) - x\<bar>
               \<or> (\<bar>of_nat (s * p) - x\<bar> = \<bar>of_nat ((s + 1) * p) - x\<bar> \<and> even s)
            then [s, s + 1] else [s + 1, s]))"

definition exponentString :: "rat \<Rightarrow> string" where
  "exponentString x =
     (let d = length (showNat (nat \<lfloor>x\<rfloor>));
          found = concat (map (\<lambda>k. map (\<lambda>s. (s, d)) (shortestDigits x d k)
                                  @ map (\<lambda>s. (s, d + 1)) (shortestDigits x (d + 1) k)) [1..<18]);
          sn = (case found of [] \<Rightarrow> (nat \<lfloor>x\<rfloor>, d) | c # _ \<Rightarrow> c);
          ds = showNat (fst sn)
      in take 1 ds @ (if length ds = 1 then [] else ''.'' @ drop 1 ds)
         @ ''e+'' @ showNat (snd sn - 1))"

text \<open>
  \<^verbatim>\<open>m.toFixed(3)\<close>: for a finite \<open>x\<close> below \<open>10 ^ 21\<close> in absolute value, the integer \<open>n\<close>
  nearest to \<open>1000 * \<bar>x\<bar>\<close> (the larger of two) is written with the point before its last
  three digits, the digits of \<open>n div 1000\<close> before it, and a minus sign for a negative
  \<open>x\<close>; from \<open>10 ^ 21\<close> on and for the values that are not finite the result is that of
  \<^verbatim>\<open>toString\<close>.
\<close>

definition toFixed3 :: "jsnumber \<Rightarrow> string" where
  "toFixed3 m =
     (case m of
        NaN \<Rightarrow> ''NaN''
      | PosInfinity \<Rightarrow> ''Infinity''
      | NegInfinity \<Rightarrow> ''-Infinity''
      | Finite x \<Rightarrow>
          (if x < 0 then ''-'' else []) @
          (if 10 ^ 21 \<le> \<bar>x\<bar> then exponentString \<bar>x\<bar>
           else
             (let n = nat \<lfloor>\<bar>x\<bar> * 1000 + 1 / 2\<rfloor>
              in showNat (n div 1000) @ ''.'' @
                 [digitChar (n div 100), digitChar (n div 10), digitChar n])))"

text \<open>\<^verbatim>\<open>.replace(/\.?0+$/, '')\<close>: the zeros at the end of the string, if there are any, are
  removed, together with a point right before them.\<close>

definition stripZeros :: "string \<Rightarrow> string" where
  "stripZeros t =
     (let r = rev t; rest = dropWhile (\<lambda>c. c = CHR ''0'') r
      in if takeWhile (\<lambda>c. c = CHR ''0'') r = [] then t
         else rev (if take 1 rest = ''.'' then drop 1 rest else rest))"

text \<open>\<^verbatim>\<open>Em(m)\<close>; \<^verbatim>\<open>.0006\<close> is the double nearest to that decimal.\<close>

definition Em :: "jsnumber \<Rightarrow> string" where
  "Em m =
     (if jsLess (jsAbs m) (numberValue (6 / 10000)) then ''0em''
      else stripZeros (toFixed3 m) @ ''em'')"

text \<open>For the statements below: the point and the last three decimal digits of \<open>n\<close>, which
  stands for \<open>n / 1000\<close>, without the zeros at their end; nothing if all three are zero.\<close>

definition decimals3 :: "nat \<Rightarrow> string" where
  "decimals3 n =
     (let d1 = digitChar (n div 100); d2 = digitChar (n div 10); d3 = digitChar n
      in if d3 \<noteq> CHR ''0'' then [CHR ''.'', d1, d2, d3]
         else if d2 \<noteq> CHR ''0'' then [CHR ''.'', d1, d2]
         else if d1 \<noteq> CHR ''0'' then [CHR ''.'', d1]
         else [])"
section \<open>Properties of the macro argument substitution\<close>

subsection \<open>Single steps of the loop\<close>

lemma charAt_nth: "i < length s \<Longrightarrow> charAt s i = [s ! i]"
  by (simp add: charAt_def)

lemma charAt_beyond: "length s \<le> i \<Longrightarrow> charAt s i = []"
  by (simp add: charAt_def)

lemma charAt_append_Cons: "charAt (A @ c # B) (length A) = [c]"
  by (simp add: charAt_def)

lemma charAt_append_Cons2: "charAt (A @ c # d # B) (Suc (length A)) = [d]"
  by (simp add: charAt_def nth_append)

lemma charAt_append_single: "charAt (A @ [c]) (Suc (length A)) = []"
  by (simp add: charAt_def)

lemma loop_end: "length str \<le> i \<Longrightarrow> substituteArgs_loop args str i tx ns = addArgs ns tx"
  by (simp add: substituteArgs_loop.simps)

lemma loop_plain_step:
  assumes "plainChar c"
  shows "substituteArgs_loop args (A @ c # B) (length A) tx ns
       = substituteArgs_loop args (A @ c # B) (Suc (length A)) (tx @ [c]) ns"
  using assms
  by (subst substituteArgs_loop.simps) (simp add: charAt_append_Cons plainChar_def)

lemma loop_plain_run:
  "list_all plainChar run \<Longrightarrow>
   substituteArgs_loop args (A @ run @ B) (length A) tx ns
     = substituteArgs_loop args (A @ run @ B) (length A + length run) (tx @ run) ns"
proof (induction run arbitrary: A tx)
  case Nil
  then show ?case by simp
next
  case (Cons c run)
  have "substituteArgs_loop args (A @ (c # run) @ B) (length A) tx ns
      = substituteArgs_loop args ((A @ [c]) @ run @ B) (length (A @ [c])) (tx @ [c]) ns"
    using Cons.prems loop_plain_step [of c args A "run @ B" tx ns] by simp
  also have "\<dots> = substituteArgs_loop args ((A @ [c]) @ run @ B)
                     (length (A @ [c]) + length run) ((tx @ [c]) @ run) ns"
    using Cons.prems by (intro Cons.IH) simp
  finally show ?case by simp
qed

lemma parseInt_digit: "isDigit19 d \<Longrightarrow> parseInt [d] = digitVal d"
  by (auto simp: parseInt_def isDigit19_def isDigit_def)

lemma loop_escape:
  "i < length str \<Longrightarrow> str ! i = backslash \<Longrightarrow>
   substituteArgs_loop args str i tx ns
     = substituteArgs_loop args str (i + 2) (tx @ backslash # charAt str (i + 1)) ns"
  by (subst substituteArgs_loop.simps) (simp add: charAt_nth)

lemma loop_hash_hash:
  "i + 1 < length str \<Longrightarrow> str ! i = CHR ''#'' \<Longrightarrow> str ! (i + 1) = CHR ''#'' \<Longrightarrow>
   substituteArgs_loop args str i tx ns
     = substituteArgs_loop args str (i + 2) (tx @ ''#'') ns"
  by (subst substituteArgs_loop.simps) (simp add: charAt_nth backslash_def)

lemma loop_placeholder:
  "i + 1 < length str \<Longrightarrow> str ! i = CHR ''#'' \<Longrightarrow> isDigit19 (str ! (i + 1)) \<Longrightarrow>
   digitVal (str ! (i + 1)) \<le> length args \<Longrightarrow>
   substituteArgs_loop args str i tx ns
     = (case addArgs ns tx of
          Inl e \<Rightarrow> Inl e
        | Inr s \<Rightarrow>
           (case addArgs s (args ! (digitVal (str ! (i + 1)) - 1)) of
              Inl e \<Rightarrow> Inl e
            | Inr ns' \<Rightarrow> substituteArgs_loop args str (i + 2) [] ns'))"
proof -
  assume a: "i + 1 < length str" "str ! i = CHR ''#''" "isDigit19 (str ! (i + 1))"
    "digitVal (str ! (i + 1)) \<le> length args"
  have c0: "charAt str i = ''#''" using a by (simp add: charAt_nth)
  have c1: "charAt str (Suc i) = [str ! Suc i]" "charAt str (i + 1) = [str ! Suc i]"
    using a by (simp_all add: charAt_nth)
  have ne: "str ! Suc i \<noteq> CHR ''#''" using a(3) by (auto simp: isDigit19_def)
  have p: "parseInt [str ! Suc i] = digitVal (str ! Suc i)"
    using a(3) by (simp add: parseInt_digit)
  show ?thesis
    using a by (subst substituteArgs_loop.simps)
      (simp add: c0 c1 ne p backslash_def matches19_def cong: sum.case_cong)
qed

lemma loop_illegal:
  "i < length str \<Longrightarrow> str ! i = CHR ''#'' \<Longrightarrow> charAt str (i + 1) \<noteq> ''#'' \<Longrightarrow>
   \<not> matches19 (charAt str (i + 1)) \<or> parseInt (charAt str (i + 1)) > length args \<Longrightarrow>
   substituteArgs_loop args str i tx ns = Inl IllegalMacroParam"
  by (subst substituteArgs_loop.simps) (auto simp: charAt_nth backslash_def)

lemma addArgs_overflow:
  "length s1 + length s2 > MAXBUFFER \<Longrightarrow> addArgs s1 s2 = Inl MaxBufferSize"
  by (simp add: addArgs_def Let_def)

lemma addArgs_Inr_length:
  "addArgs s1 s2 = Inr r \<Longrightarrow> length r \<le> MAXBUFFER"
  by (auto simp: addArgs_def Let_def split: if_splits)

lemma addArgs_Inl: "addArgs s1 s2 = Inl e \<Longrightarrow> e = MaxBufferSize"
  by (auto simp: addArgs_def Let_def split: if_splits)

lemma endsWithControlWord_no_backslash:
  "backslash \<notin> set s \<Longrightarrow> \<not> endsWithControlWord s"
proof -
  assume a: "backslash \<notin> set s"
  have "takeWhile (\<lambda>c. c = backslash) (dropWhile isLetter (rev s)) = []"
  proof (cases "dropWhile isLetter (rev s)")
    case Nil then show ?thesis by (simp only: takeWhile.simps)
  next
    case (Cons x xs)
    then have "x \<in> set (rev s)" by (metis list.set_intros(1) set_dropWhileD)
    then have "x \<noteq> backslash" using a by auto
    then show ?thesis using Cons by simp
  qed
  then show ?thesis by (simp add: endsWithControlWord_def Let_def)
qed

lemma addArgs_plain:
  "backslash \<notin> set s1 \<Longrightarrow> length s1 + length s2 \<le> MAXBUFFER \<Longrightarrow> addArgs s1 s2 = Inr (s1 @ s2)"
  by (simp add: addArgs_def Let_def endsWithControlWord_no_backslash)

lemma loop_Inr_length:
  "substituteArgs_loop args str i tx ns = Inr out \<Longrightarrow> length out \<le> MAXBUFFER"
proof (induction args str i tx ns rule: substituteArgs_loop.induct)
  case (1 args str i tx newstring)
  from "1.prems" show ?case
    apply (subst (asm) substituteArgs_loop.simps)
    apply (insert "1.IH")
    apply (auto split: if_splits sum.splits dest: addArgs_Inr_length)
    done
qed


subsection \<open>Whole bodies\<close>

lemma subst_plain: "list_all plainChar body \<Longrightarrow> substituteArgs args body = addArgs [] body"
  using loop_plain_run [of body args "[]" "[]" "[]" "[]"]
  by (simp add: substituteArgs_def loop_end)

lemma set_plain_no_backslash: "list_all plainChar s \<Longrightarrow> backslash \<notin> set s"
  by (auto simp: list_all_iff plainChar_def)

lemma addArgs_Nil: "length s \<le> MAXBUFFER \<Longrightarrow> addArgs [] s = Inr s"
  by (simp add: addArgs_def endsWithControlWord_def)

lemma subst_prefix:
  "list_all plainChar pre \<Longrightarrow>
   substituteArgs args (pre @ rest) = substituteArgs_loop args (pre @ rest) (length pre) pre []"
  using loop_plain_run [of pre args "[]" rest "[]" "[]"]
  by (simp add: substituteArgs_def)

lemma subst_escape:
  assumes "list_all plainChar pre" "list_all plainChar post"
    and "length pre + 2 + length post \<le> MAXBUFFER"
  shows "substituteArgs args (pre @ [backslash, c] @ post) = Inr (pre @ [backslash, c] @ post)"
proof -
  let ?str = "pre @ [backslash, c] @ post"
  have "substituteArgs args ?str = substituteArgs_loop args ?str (length pre) pre []"
    using assms(1) by (rule subst_prefix)
  also have "\<dots> = substituteArgs_loop args ?str (length pre + 2) (pre @ [backslash, c]) []"
    by (subst loop_escape) (simp_all add: nth_append charAt_def)
  also have "\<dots> = substituteArgs_loop args ?str
                     (length (pre @ [backslash, c]) + length post) ((pre @ [backslash, c]) @ post) []"
    using loop_plain_run [OF assms(2), of args "pre @ [backslash, c]" "[]" "pre @ [backslash, c]" "[]"]
    by simp
  also have "\<dots> = addArgs [] ?str"
    by (simp add: loop_end)
  also have "\<dots> = Inr ?str"
    using assms(3) by (simp add: addArgs_Nil)
  finally show ?thesis .
qed

lemma subst_hash_hash:
  assumes "list_all plainChar pre" "list_all plainChar post"
    and "length pre + 1 + length post \<le> MAXBUFFER"
  shows "substituteArgs args (pre @ ''##'' @ post) = Inr (pre @ ''#'' @ post)"
proof -
  let ?str = "pre @ ''##'' @ post"
  have "substituteArgs args ?str = substituteArgs_loop args ?str (length pre) pre []"
    using assms(1) by (rule subst_prefix)
  also have "\<dots> = substituteArgs_loop args ?str (length pre + 2) (pre @ ''#'') []"
    by (subst loop_hash_hash) (simp_all add: nth_append)
  also have "\<dots> = substituteArgs_loop args ?str
                     (length (pre @ ''##'') + length post) ((pre @ ''#'') @ post) []"
    using loop_plain_run [OF assms(2), of args "pre @ ''##''" "[]" "pre @ ''#''" "[]"]
    by simp
  also have "\<dots> = addArgs [] (pre @ ''#'' @ post)"
    by (simp add: loop_end)
  also have "\<dots> = Inr (pre @ ''#'' @ post)"
    using assms(3) by (simp add: addArgs_Nil)
  finally show ?thesis .
qed

lemma subst_placeholder_general:
  assumes "list_all plainChar pre" "list_all plainChar post"
    and "isDigit19 d" "digitVal d \<le> length args"
  shows "substituteArgs args (pre @ CHR ''#'' # d # post)
       = (case addArgs [] pre of
            Inl e \<Rightarrow> Inl e
          | Inr s \<Rightarrow>
             (case addArgs s (args ! (digitVal d - 1)) of
                Inl e \<Rightarrow> Inl e
              | Inr ns \<Rightarrow> addArgs ns post))"
proof -
  let ?str = "pre @ CHR ''#'' # d # post"
  have tail: "substituteArgs_loop args ?str (length pre + 2) [] ns = addArgs ns post" for ns
    using loop_plain_run [OF assms(2), of args "pre @ [CHR ''#'', d]" "[]" "[]" ns]
    by (simp add: loop_end)
  have "substituteArgs args ?str = substituteArgs_loop args ?str (length pre) pre []"
    using assms(1) by (rule subst_prefix)
  also have "\<dots> = (case addArgs [] pre of
            Inl e \<Rightarrow> Inl e
          | Inr s \<Rightarrow>
             (case addArgs s (args ! (digitVal d - 1)) of
                Inl e \<Rightarrow> Inl e
              | Inr ns \<Rightarrow> substituteArgs_loop args ?str (length pre + 2) [] ns))"
    using assms(3,4) by (subst loop_placeholder) (simp_all add: nth_append cong: sum.case_cong)
  also have "\<dots> = (case addArgs [] pre of
            Inl e \<Rightarrow> Inl e
          | Inr s \<Rightarrow>
             (case addArgs s (args ! (digitVal d - 1)) of
                Inl e \<Rightarrow> Inl e
              | Inr ns \<Rightarrow> addArgs ns post))"
    by (simp only: tail cong: sum.case_cong)
  finally show ?thesis .
qed

lemma subst_placeholder:
  assumes "list_all plainChar pre" "list_all plainChar post"
    and "isDigit19 d" "digitVal d \<le> length args"
    and "backslash \<notin> set (args ! (digitVal d - 1))"
    and "length pre + length (args ! (digitVal d - 1)) + length post \<le> MAXBUFFER"
  shows "substituteArgs args (pre @ CHR ''#'' # d # post) = Inr (pre @ args ! (digitVal d - 1) @ post)"
proof -
  let ?a = "args ! (digitVal d - 1)"
  have 1: "addArgs [] pre = Inr pre"
    using assms(6) by (simp add: addArgs_Nil)
  have 2: "addArgs pre ?a = Inr (pre @ ?a)"
    using assms(1,6) by (simp add: addArgs_plain set_plain_no_backslash)
  have 3: "addArgs (pre @ ?a) post = Inr ((pre @ ?a) @ post)"
    using assms(1,5,6) by (intro addArgs_plain) (simp_all add: set_plain_no_backslash)
  show ?thesis
    by (simp only: subst_placeholder_general [OF assms(1-4)] 1 2 3 sum.case append_assoc)
qed

lemma subst_illegal:
  assumes "list_all plainChar pre"
    and "case rest of [] \<Rightarrow> True
         | c # _ \<Rightarrow> c \<noteq> CHR ''#'' \<and> (\<not> isDigit19 c \<or> length args < digitVal c)"
  shows "substituteArgs args (pre @ ''#'' @ rest) = Inl IllegalMacroParam"
proof -
  let ?str = "pre @ ''#'' @ rest"
  have "substituteArgs args ?str = substituteArgs_loop args ?str (length pre) pre []"
    using assms(1) by (rule subst_prefix)
  also have "\<dots> = Inl IllegalMacroParam"
  proof (cases rest)
    case Nil
    then show ?thesis
      by (intro loop_illegal) (simp_all add: charAt_def matches19_def)
  next
    case (Cons c r)
    then have "charAt ?str (length pre + 1) = [c]"
      by (simp add: charAt_def nth_append)
    then show ?thesis
      using assms(2) Cons
      by (intro loop_illegal) (auto simp: matches19_def parseInt_digit)
  qed
  finally show ?thesis .
qed

lemma loop_Inl:
  "substituteArgs_loop args str i tx ns = Inl e \<Longrightarrow> e = IllegalMacroParam \<or> e = MaxBufferSize"
proof (induction args str i tx ns rule: substituteArgs_loop.induct)
  case (1 args str i tx newstring)
  from "1.prems" show ?case
    apply (subst (asm) substituteArgs_loop.simps)
    apply (insert "1.IH")
    apply (auto split: if_splits sum.splits dest: addArgs_Inl)
    done
qed


text \<open>
  Claim C5.  \<open>substituteArgs\<close> scans the body from left to right.  From any position and
  any accumulated text, a backslash and the character after it are copied as they are
  and the scan continues behind both, whatever the second character is; \<open>#\<close> followed by
  a digit from 1 to 9 that is at most the number of arguments appends the accumulated
  text and then the argument with that number, counted from 1, through \<open>addArgs\<close>;
  \<open>##\<close> adds one \<open>#\<close> to the text.  Between stretches of ordinary characters this gives the
  body with the escape pair unchanged, with the placeholder replaced by the argument
  (an argument without backslash, and a result within the buffer), and with \<open>##\<close>
  replaced by \<open>#\<close>.  In particular the arguments \<open>X\<close>, \<open>Y\<close> and the body \<open>#1-#2-##\<close>
  give \<open>X-Y-#\<close>.
\<close>

theorem substituteArgs_placeholders:
  "(i < length str \<and> str ! i = backslash \<longrightarrow>
      substituteArgs_loop args str i tx ns
        = substituteArgs_loop args str (i + 2) (tx @ backslash # charAt str (i + 1)) ns)
   \<and> (i + 1 < length str \<and> str ! i = CHR ''#'' \<and> isDigit19 (str ! (i + 1))
        \<and> digitVal (str ! (i + 1)) \<le> length args \<longrightarrow>
      substituteArgs_loop args str i tx ns
        = (case addArgs ns tx of
             Inl e \<Rightarrow> Inl e
           | Inr s \<Rightarrow>
              (case addArgs s (args ! (digitVal (str ! (i + 1)) - 1)) of
                 Inl e \<Rightarrow> Inl e
               | Inr ns' \<Rightarrow> substituteArgs_loop args str (i + 2) [] ns')))
   \<and> (i + 1 < length str \<and> str ! i = CHR ''#'' \<and> str ! (i + 1) = CHR ''#'' \<longrightarrow>
      substituteArgs_loop args str i tx ns
        = substituteArgs_loop args str (i + 2) (tx @ ''#'') ns)
   \<and> (list_all plainChar pre \<and> list_all plainChar post
        \<and> length pre + 2 + length post \<le> MAXBUFFER \<longrightarrow>
      substituteArgs args (pre @ [backslash, c] @ post) = Inr (pre @ [backslash, c] @ post))
   \<and> (list_all plainChar pre \<and> list_all plainChar post \<and> isDigit19 d
        \<and> digitVal d \<le> length args \<and> backslash \<notin> set (args ! (digitVal d - 1))
        \<and> length pre + length (args ! (digitVal d - 1)) + length post \<le> MAXBUFFER \<longrightarrow>
      substituteArgs args (pre @ CHR ''#'' # d # post)
        = Inr (pre @ args ! (digitVal d - 1) @ post))
   \<and> (list_all plainChar pre \<and> list_all plainChar post
        \<and> length pre + 1 + length post \<le> MAXBUFFER \<longrightarrow>
      substituteArgs args (pre @ ''##'' @ post) = Inr (pre @ ''#'' @ post))
   \<and> substituteArgs [''X'', ''Y''] ''#1-#2-##'' = Inr ''X-Y-#''"
proof -
  have 1: "i < length str \<and> str ! i = backslash \<longrightarrow>
      substituteArgs_loop args str i tx ns
        = substituteArgs_loop args str (i + 2) (tx @ backslash # charAt str (i + 1)) ns"
    by (simp add: loop_escape)
  have 2: "i + 1 < length str \<and> str ! i = CHR ''#'' \<and> isDigit19 (str ! (i + 1))
        \<and> digitVal (str ! (i + 1)) \<le> length args \<longrightarrow>
      substituteArgs_loop args str i tx ns
        = (case addArgs ns tx of
             Inl e \<Rightarrow> Inl e
           | Inr s \<Rightarrow>
              (case addArgs s (args ! (digitVal (str ! (i + 1)) - 1)) of
                 Inl e \<Rightarrow> Inl e
               | Inr ns' \<Rightarrow> substituteArgs_loop args str (i + 2) [] ns'))"
    using loop_placeholder [of i str args tx ns] by blast
  have 3: "i + 1 < length str \<and> str ! i = CHR ''#'' \<and> str ! (i + 1) = CHR ''#'' \<longrightarrow>
      substituteArgs_loop args str i tx ns
        = substituteArgs_loop args str (i + 2) (tx @ ''#'') ns"
    using loop_hash_hash [of i str args tx ns] by blast
  have 4: "list_all plainChar pre \<and> list_all plainChar post
        \<and> length pre + 2 + length post \<le> MAXBUFFER \<longrightarrow>
      substituteArgs args (pre @ [backslash, c] @ post) = Inr (pre @ [backslash, c] @ post)"
    using subst_escape [of pre post args c] by blast
  have 5: "list_all plainChar pre \<and> list_all plainChar post \<and> isDigit19 d
        \<and> digitVal d \<le> length args \<and> backslash \<notin> set (args ! (digitVal d - 1))
        \<and> length pre + length (args ! (digitVal d - 1)) + length post \<le> MAXBUFFER \<longrightarrow>
      substituteArgs args (pre @ CHR ''#'' # d # post)
        = Inr (pre @ args ! (digitVal d - 1) @ post)"
    using subst_placeholder [of pre post d args] by blast
  have 6: "list_all plainChar pre \<and> list_all plainChar post
        \<and> length pre + 1 + length post \<le> MAXBUFFER \<longrightarrow>
      substituteArgs args (pre @ ''##'' @ post) = Inr (pre @ ''#'' @ post)"
    using subst_hash_hash [of pre post args] by blast
  have 7: "substituteArgs [''X'', ''Y''] ''#1-#2-##'' = Inr ''X-Y-#''"
    by code_simp
  show ?thesis
    by (intro conjI 1 2 3 4 5 6 7)
qed

theorem substituteArgs_placeholders_witness:
  "substituteArgs_loop [''X''] [backslash, CHR ''#'', CHR ''1''] 0 [] []
     = substituteArgs_loop [''X''] [backslash, CHR ''#'', CHR ''1''] 2 [backslash, CHR ''#''] []
   \<and> substituteArgs_loop [''X'', ''Y''] ''#2'' 0 ''a'' ''b''
     = substituteArgs_loop [''X'', ''Y''] ''#2'' 2 [] ''baY''
   \<and> substituteArgs_loop [] ''##'' 0 ''a'' ''b'' = substituteArgs_loop [] ''##'' 2 ''a#'' ''b''
   \<and> substituteArgs [''X''] (''a'' @ [backslash, CHR ''#''] @ ''1'')
     = Inr (''a'' @ [backslash, CHR ''#''] @ ''1'')
   \<and> substituteArgs [''X'', ''Y''] ''a#2b'' = Inr ''aYb''
   \<and> substituteArgs [] ''a##b'' = Inr ''a#b''"
  using substituteArgs_placeholders [where i = 0 and str = "[backslash, CHR ''#'', CHR ''1'']"
      and args = "[''X'']" and tx = "[]" and ns = "[]" and pre = "''a''" and post = "''1''"
      and c = "CHR ''#''" and d = "CHR ''1''"]
    substituteArgs_placeholders [where i = 0 and str = "''#2''"
      and args = "[''X'', ''Y'']" and tx = "''a''" and ns = "''b''" and pre = "''a''" and post = "''b''"
      and c = "CHR ''#''" and d = "CHR ''2''"]
    substituteArgs_placeholders [where i = 0 and str = "''##''"
      and args = "[]" and tx = "''a''" and ns = "''b''" and pre = "''a''" and post = "''b''"
      and c = "CHR ''#''" and d = "CHR ''2''"]
  by (simp add: plainChar_def backslash_def MAXBUFFER_def isDigit19_def digitVal_def charAt_def
      addArgs_def startsWithLetter_def endsWithControlWord_def isLetter_def numeral_2_eq_2)


subsection \<open>The claims\<close>

lemma loop_illegal_index:
  assumes "i + 1 < length str" "str ! i = CHR ''#''" "isDigit19 (str ! (i + 1))"
    and "length args < digitVal (str ! (i + 1))"
  shows "substituteArgs_loop args str i tx ns = Inl IllegalMacroParam"
proof -
  have c1: "charAt str (Suc i) = [str ! Suc i]"
    using assms(1) by (simp add: charAt_def)
  have "str ! Suc i \<noteq> CHR ''#''"
    using assms(3) by (auto simp: isDigit19_def)
  then show ?thesis
    using assms by (intro loop_illegal) (simp_all add: c1 parseInt_digit)
qed

lemma loop_illegal_char:
  assumes "i < length str" "str ! i = CHR ''#''"
    and "case charAt str (i + 1) of [] \<Rightarrow> True | c # _ \<Rightarrow> c \<notin> set ''#123456789''"
  shows "substituteArgs_loop args str i tx ns = Inl IllegalMacroParam"
  using assms
  by (intro loop_illegal) (auto simp: matches19_def isDigit19_def split: list.splits)

lemma subst_illegal_char:
  assumes "list_all plainChar pre"
    and "case rest of [] \<Rightarrow> True | c # _ \<Rightarrow> c \<notin> set ''#123456789''"
  shows "substituteArgs args (pre @ ''#'' @ rest) = Inl IllegalMacroParam"
  using assms
  by (intro subst_illegal) (auto simp: isDigit19_def split: list.splits)

lemma subst_Inr_length: "substituteArgs args body = Inr out \<Longrightarrow> length out \<le> MAXBUFFER"
  unfolding substituteArgs_def by (rule loop_Inr_length)

lemma subst_Inl:
  "substituteArgs args body = Inl e \<Longrightarrow> e = IllegalMacroParam \<or> e = MaxBufferSize"
  unfolding substituteArgs_def by (rule loop_Inl)

lemma loop_placeholder_overflow:
  assumes "i + 1 < length str" "str ! i = CHR ''#''" "isDigit19 (str ! (i + 1))"
    and "digitVal (str ! (i + 1)) \<le> length args"
    and "MAXBUFFER < length ns + length tx"
  shows "substituteArgs_loop args str i tx ns = Inl MaxBufferSize"
  by (simp add: loop_placeholder [OF assms(1-4)] addArgs_overflow [OF assms(5)])

text \<open>
  Claim C6.  A placeholder whose digit is larger than the number of arguments makes
  the scan fail with \<open>IllegalMacroParam\<close>, as for the one argument \<open>X\<close> and the body
  \<open>#2\<close>.  \<open>addArgs\<close> fails with \<open>MaxBufferSize\<close> whenever the two lengths add up to more
  than 5120, so the scan fails with it when the accumulated strings exceed that at a
  placeholder or at the end of the body; no string longer than 5120 is ever returned.
  Both failures are errors (\<open>Inl\<close>), not results, and no other error arises.
\<close>

theorem substituteArgs_failures:
  "(i + 1 < length str \<and> str ! i = CHR ''#'' \<and> isDigit19 (str ! (i + 1))
      \<and> length args < digitVal (str ! (i + 1)) \<longrightarrow>
    substituteArgs_loop args str i tx ns = Inl IllegalMacroParam)
   \<and> (list_all plainChar pre \<and> isDigit19 d \<and> length args < digitVal d \<longrightarrow>
    substituteArgs args (pre @ ''#'' @ d # post) = Inl IllegalMacroParam)
   \<and> substituteArgs [''X''] ''#2'' = Inl IllegalMacroParam
   \<and> (5120 < length s1 + length s2 \<longrightarrow> addArgs s1 s2 = Inl MaxBufferSize)
   \<and> (i + 1 < length str \<and> str ! i = CHR ''#'' \<and> isDigit19 (str ! (i + 1))
      \<and> digitVal (str ! (i + 1)) \<le> length args \<and> 5120 < length ns + length tx \<longrightarrow>
    substituteArgs_loop args str i tx ns = Inl MaxBufferSize)
   \<and> (length str \<le> i \<and> 5120 < length ns + length tx \<longrightarrow>
    substituteArgs_loop args str i tx ns = Inl MaxBufferSize)
   \<and> (list_all plainChar body \<and> 5120 < length body \<longrightarrow>
    substituteArgs args body = Inl MaxBufferSize)
   \<and> (substituteArgs args body = Inr out \<longrightarrow> length out \<le> 5120)
   \<and> (substituteArgs args body = Inl e \<longrightarrow> e = IllegalMacroParam \<or> e = MaxBufferSize)"
proof -
  have m: "MAXBUFFER = 5120"
    by (simp add: MAXBUFFER_def)
  have 1: "i + 1 < length str \<and> str ! i = CHR ''#'' \<and> isDigit19 (str ! (i + 1))
      \<and> length args < digitVal (str ! (i + 1)) \<longrightarrow>
    substituteArgs_loop args str i tx ns = Inl IllegalMacroParam"
    using loop_illegal_index [of i str args tx ns] by blast
  have 2: "list_all plainChar pre \<and> isDigit19 d \<and> length args < digitVal d \<longrightarrow>
    substituteArgs args (pre @ ''#'' @ d # post) = Inl IllegalMacroParam"
    using subst_illegal [where pre = pre and rest = "d # post" and args = args]
    by (auto simp: isDigit19_def)
  have 3: "substituteArgs [''X''] ''#2'' = Inl IllegalMacroParam"
    by code_simp
  have 4: "5120 < length s1 + length s2 \<longrightarrow> addArgs s1 s2 = Inl MaxBufferSize"
    using addArgs_overflow [of s1 s2] by (simp add: m)
  have 5: "i + 1 < length str \<and> str ! i = CHR ''#'' \<and> isDigit19 (str ! (i + 1))
      \<and> digitVal (str ! (i + 1)) \<le> length args \<and> 5120 < length ns + length tx \<longrightarrow>
    substituteArgs_loop args str i tx ns = Inl MaxBufferSize"
    using loop_placeholder_overflow [of i str args ns tx] by (simp add: m)
  have 6: "length str \<le> i \<and> 5120 < length ns + length tx \<longrightarrow>
    substituteArgs_loop args str i tx ns = Inl MaxBufferSize"
    using addArgs_overflow [of ns tx] by (simp add: loop_end m)
  have 7: "list_all plainChar body \<and> 5120 < length body \<longrightarrow>
    substituteArgs args body = Inl MaxBufferSize"
    using addArgs_overflow [of "[]" body] by (simp add: subst_plain m)
  have 8: "substituteArgs args body = Inr out \<longrightarrow> length out \<le> 5120"
    using subst_Inr_length [of args body out] by (simp add: m)
  have 9: "substituteArgs args body = Inl e \<longrightarrow> e = IllegalMacroParam \<or> e = MaxBufferSize"
    using subst_Inl by blast
  show ?thesis
    by (intro conjI 1 2 3 4 5 6 7 8 9)
qed

theorem substituteArgs_failures_witness:
  "substituteArgs_loop [''X''] ''#2'' 0 [] [] = Inl IllegalMacroParam
   \<and> substituteArgs [''X''] ''a#2b'' = Inl IllegalMacroParam
   \<and> addArgs (replicate 5120 (CHR ''a'')) ''b'' = Inl MaxBufferSize
   \<and> substituteArgs_loop [''X''] ''#1'' 0 ''b'' (replicate 5120 (CHR ''a'')) = Inl MaxBufferSize
   \<and> substituteArgs_loop [''X''] ''#1'' 2 ''b'' (replicate 5120 (CHR ''a'')) = Inl MaxBufferSize
   \<and> substituteArgs [''X''] (replicate 5121 (CHR ''a'')) = Inl MaxBufferSize
   \<and> substituteArgs [''X''] ''a'' = Inr ''a'' \<and> length ''a'' \<le> (5120 :: nat)
   \<and> substituteArgs [''X''] ''#2'' = Inl IllegalMacroParam"
proof -
  have a: "plainChar (CHR ''a'')" "list_all plainChar (replicate 5121 (CHR ''a''))"
    "isDigit19 (CHR ''2'')" "isDigit19 (CHR ''1'')"
    "digitVal (CHR ''2'') = 2" "digitVal (CHR ''1'') = 1"
    by (simp_all add: plainChar_def backslash_def isDigit19_def digitVal_def list_all_iff)
  have b: "substituteArgs [''X''] ''a'' = Inr ''a''"
    by code_simp
  show ?thesis
    using substituteArgs_failures [where i = 0 and str = "''#2''" and args = "[''X'']"
        and tx = "[]" and ns = "[]" and pre = "''a''" and d = "CHR ''2''" and post = "''b''"
        and ?s1.0 = "replicate 5120 (CHR ''a'')" and ?s2.0 = "''b''"
        and body = "replicate 5121 (CHR ''a'')" and out = "[]" and e = IllegalMacroParam]
      substituteArgs_failures [where i = 0 and str = "''#1''" and args = "[''X'']"
        and tx = "''b''" and ns = "replicate 5120 (CHR ''a'')" and pre = "''a''"
        and d = "CHR ''2''" and post = "''b''" and ?s1.0 = "[]" and ?s2.0 = "[]"
        and body = "''a''" and out = "''a''" and e = IllegalMacroParam]
      substituteArgs_failures [where i = 2 and str = "''#1''" and args = "[''X'']"
        and tx = "''b''" and ns = "replicate 5120 (CHR ''a'')" and pre = "''a''"
        and d = "CHR ''2''" and post = "''b''" and ?s1.0 = "[]" and ?s2.0 = "[]"
        and body = "''#2''" and out = "[]" and e = IllegalMacroParam]
    by (simp add: a b)
qed

text \<open>
  Claim C10.  An unescaped \<open>#\<close> that is followed by anything but \<open>#\<close> or a digit from 1 to
  9 (the digit 0, a letter, the end of the body) makes the scan fail with
  \<open>IllegalMacroParam\<close>; nothing is returned.
\<close>

theorem substituteArgs_illegal_reference:
  "(i < length str \<and> str ! i = CHR ''#''
      \<and> (case charAt str (i + 1) of [] \<Rightarrow> True | c # _ \<Rightarrow> c \<notin> set ''#123456789'') \<longrightarrow>
    substituteArgs_loop args str i tx ns = Inl IllegalMacroParam)
   \<and> (list_all plainChar pre
      \<and> (case rest of [] \<Rightarrow> True | c # _ \<Rightarrow> c \<notin> set ''#123456789'') \<longrightarrow>
    substituteArgs args (pre @ ''#'' @ rest) = Inl IllegalMacroParam)
   \<and> substituteArgs args ''#0'' = Inl IllegalMacroParam
   \<and> substituteArgs args ''#a'' = Inl IllegalMacroParam
   \<and> substituteArgs args ''#'' = Inl IllegalMacroParam"
proof -
  have 1: "i < length str \<and> str ! i = CHR ''#''
      \<and> (case charAt str (i + 1) of [] \<Rightarrow> True | c # _ \<Rightarrow> c \<notin> set ''#123456789'') \<longrightarrow>
    substituteArgs_loop args str i tx ns = Inl IllegalMacroParam"
    using loop_illegal_char [of i str args tx ns] by blast
  have 2: "list_all plainChar pre
      \<and> (case rest of [] \<Rightarrow> True | c # _ \<Rightarrow> c \<notin> set ''#123456789'') \<longrightarrow>
    substituteArgs args (pre @ ''#'' @ rest) = Inl IllegalMacroParam" for pre rest
    using subst_illegal_char [of pre rest args] by blast
  have 3: "substituteArgs args ''#0'' = Inl IllegalMacroParam"
    using 2 [of "[]" "''0''"] by simp
  have 4: "substituteArgs args ''#a'' = Inl IllegalMacroParam"
    using 2 [of "[]" "''a''"] by simp
  have 5: "substituteArgs args ''#'' = Inl IllegalMacroParam"
    using 2 [of "[]" "[]"] by simp
  show ?thesis
    by (intro conjI 1 2 3 4 5)
qed

theorem substituteArgs_illegal_reference_witness:
  "substituteArgs_loop [''X''] ''a#0'' 1 ''a'' [] = Inl IllegalMacroParam
   \<and> substituteArgs_loop [''X''] ''a#'' 1 ''a'' [] = Inl IllegalMacroParam
   \<and> substituteArgs [''X''] ''ab#cd'' = Inl IllegalMacroParam
   \<and> substituteArgs [''X''] ''ab#'' = Inl IllegalMacroParam"
  using substituteArgs_illegal_reference [where i = 1 and str = "''a#0''" and args = "[''X'']"
      and tx = "''a''" and ns = "[]" and pre = "''ab''" and rest = "''cd''"]
    substituteArgs_illegal_reference [where i = 1 and str = "''a#''" and args = "[''X'']"
      and tx = "''a''" and ns = "[]" and pre = "''ab''" and rest = "[]"]
  by (simp add: plainChar_def backslash_def charAt_def)

section \<open>Properties of the dimension parser\<close>

lemma skipSpaces_append: "list_all isSpace ws \<Longrightarrow> skipSpaces (ws @ s) = skipSpaces s"
  by (simp add: skipSpaces_def list_all_iff dropWhile_append2)

lemma skipSpaces_all: "list_all isSpace ws \<Longrightarrow> skipSpaces ws = []"
  by (simp add: skipSpaces_def list_all_iff)

lemma skipSpaces_Cons: "\<not> isSpace c \<Longrightarrow> skipSpaces (c # s) = c # s"
  by (simp add: skipSpaces_def)

lemma digit_not_other: "isDigit c \<Longrightarrow> \<not> isSpace c \<and> \<not> isSign c \<and> \<not> isSeparator c \<and> \<not> isLetter c"
  by (auto simp: isDigit_def isSpace_def isSign_def isSeparator_def isLetter_def)

lemma separator_not_other: "isSeparator c \<Longrightarrow> \<not> isSpace c \<and> \<not> isSign c \<and> \<not> isDigit c"
  by (auto simp: isDigit_def isSpace_def isSign_def isSeparator_def)

lemma sign_not_space: "isSign c \<Longrightarrow> \<not> isSpace c"
  by (auto simp: isSpace_def isSign_def)

lemma letter_not_other: "isLetter c \<Longrightarrow> \<not> isSpace c \<and> \<not> isDigit c \<and> \<not> isSeparator c"
  by (auto simp: isDigit_def isSpace_def isSeparator_def isLetter_def)

lemma space_not_other: "isSpace c \<Longrightarrow> \<not> isDigit c \<and> \<not> isSeparator c"
  by (auto simp: isDigit_def isSpace_def isSeparator_def)

lemma unit_letters: "u \<in> set units \<Longrightarrow> length u = 2 \<and> list_all isLetter u"
  by (auto simp: units_def) (simp_all add: isLetter_def)

lemma takeWhile_digits: "list_all isDigit ds \<Longrightarrow> noDigitAhead r \<Longrightarrow> takeWhile isDigit (ds @ r) = ds"
  by (cases r) (auto simp: list_all_iff noDigitAhead_def takeWhile_append2 intro: takeWhile_eq_all_conv[THEN iffD2])

lemma dropWhile_digits: "list_all isDigit ds \<Longrightarrow> noDigitAhead r \<Longrightarrow> dropWhile isDigit (ds @ r) = r"
  by (cases r) (auto simp: list_all_iff noDigitAhead_def dropWhile_append2)

lemma matchUnsigned_digit_head:
  "s \<noteq> [] \<Longrightarrow> isDigit (hd s) \<Longrightarrow>
   matchUnsigned s =
     (case dropWhile isDigit s of
        [] \<Rightarrow> Some (takeWhile isDigit s, [])
      | d # r' \<Rightarrow>
         if isSeparator d
         then Some (takeWhile isDigit s @ d # takeWhile isDigit r', dropWhile isDigit r')
         else Some (takeWhile isDigit s, d # r'))"
  by (cases s) (auto simp: matchUnsigned_def digit_not_other cong: list.case_cong)

lemma matchUnsigned_int:
  assumes "ip \<noteq> []" "list_all isDigit ip" "noNumberAhead r"
  shows "matchUnsigned (ip @ r) = Some (ip, r)"
proof -
  have h: "ip @ r \<noteq> []" "isDigit (hd (ip @ r))"
    using assms(1,2) by (cases ip; simp)+
  have nd: "noDigitAhead r"
    using assms(3) by (auto simp: noDigitAhead_def noNumberAhead_def split: list.splits)
  have t: "takeWhile isDigit (ip @ r) = ip" "dropWhile isDigit (ip @ r) = r"
    using assms(2) nd by (simp_all add: takeWhile_digits dropWhile_digits)
  show ?thesis
    unfolding matchUnsigned_digit_head [OF h] t
    using assms(3) by (auto simp: noNumberAhead_def split: list.splits)
qed

lemma matchUnsigned_frac:
  assumes "ip \<noteq> []" "list_all isDigit ip" "isSeparator sep" "list_all isDigit fp" "noDigitAhead r"
  shows "matchUnsigned (ip @ sep # fp @ r) = Some (ip @ sep # fp, r)"
proof -
  have h: "ip @ sep # fp @ r \<noteq> []" "isDigit (hd (ip @ sep # fp @ r))"
    using assms(1,2) by (cases ip; simp)+
  have nd: "noDigitAhead (sep # fp @ r)"
    using assms(3) separator_not_other by (simp add: noDigitAhead_def)
  have t: "takeWhile isDigit (ip @ sep # fp @ r) = ip"
    "dropWhile isDigit (ip @ sep # fp @ r) = sep # fp @ r"
    using assms(2) nd by (simp_all add: takeWhile_digits dropWhile_digits)
  show ?thesis
    unfolding matchUnsigned_digit_head [OF h] t
    using assms(3,4,5) by (simp add: takeWhile_digits dropWhile_digits)
qed

lemma matchUnsigned_lead:
  assumes "isSeparator sep" "fp \<noteq> []" "list_all isDigit fp" "noDigitAhead r"
  shows "matchUnsigned (sep # fp @ r) = Some (sep # fp, r)"
  using assms by (simp add: matchUnsigned_def takeWhile_digits dropWhile_digits)


lemma matchSign_ok:
  "isSignPart sg \<Longrightarrow> s \<noteq> [] \<Longrightarrow> \<not> isSign (hd s) \<Longrightarrow> matchSign (sg @ s) = (sg, s)"
  by (cases s) (auto simp: isSignPart_def matchSign_def isSign_def)

lemma matchNum_ok:
  assumes "isSignPart sg" "n \<noteq> []" "\<not> isSign (hd n)" "matchUnsigned (n @ r) = Some (n, r)"
  shows "matchNum (sg @ n @ r) = Some (sg @ n, r)"
proof -
  have "matchSign (sg @ n @ r) = (sg, n @ r)"
    using assms(1,2,3) by (intro matchSign_ok) (cases n; simp)+
  then show ?thesis
    by (simp add: matchNum_def assms(4))
qed

lemma matchUnit_ok: "u \<in> set units \<Longrightarrow> matchUnit (u @ r) = Some (u, r)"
  using unit_letters [of u] by (simp add: matchUnit_def)

lemma replaceComma_no_comma: "CHR '','' \<notin> set s \<Longrightarrow> replaceComma (s @ t) = s @ replaceComma t"
  by (induction s) auto

lemma replaceComma_id: "CHR '','' \<notin> set s \<Longrightarrow> replaceComma s = s"
  by (induction s) auto

lemma comma_not_digit: "\<not> isDigit (CHR '','')"
  by (simp add: isDigit_def)

lemma digits_no_comma: "list_all isDigit ds \<Longrightarrow> CHR '','' \<notin> set ds"
  using comma_not_digit by (auto simp: list_all_iff)

lemma sign_no_comma: "isSignPart sg \<Longrightarrow> CHR '','' \<notin> set sg"
  by (auto simp: isSignPart_def)

lemma replaceComma_fraction:
  "isFractionPart fr \<Longrightarrow>
   replaceComma fr = (case fr of [] \<Rightarrow> [] | sep # fp \<Rightarrow> CHR ''.'' # fp)"
  by (cases fr) (auto simp: isFractionPart_def isSeparator_def replaceComma_id digits_no_comma)

lemma unit_hd: "u \<in> set units \<Longrightarrow> u \<noteq> [] \<and> isLetter (hd u)"
  by (auto simp: units_def) (simp_all add: isLetter_def)

lemma noNumberAhead_unit:
  assumes "list_all isSpace ws" "u \<in> set units"
  shows "noNumberAhead (ws @ u @ r)"
proof (cases ws)
  case Nil
  obtain a u' where "u = a # u'" "isLetter a"
    using unit_hd [OF assms(2)] by (cases u) auto
  then show ?thesis
    using Nil letter_not_other by (simp add: noNumberAhead_def)
next
  case (Cons c ws')
  then have "isSpace c" using assms(1) by simp
  then show ?thesis
    using Cons space_not_other by (simp add: noNumberAhead_def)
qed

lemma skipSpaces_unit:
  assumes "list_all isSpace ws" "u \<in> set units"
  shows "skipSpaces (ws @ u @ r) = u @ r"
proof -
  obtain a u' where "u = a # u'" "isLetter a"
    using unit_hd [OF assms(2)] by (cases u) auto
  then have "skipSpaces (u @ r) = u @ r"
    using letter_not_other by (simp add: skipSpaces_Cons)
  then show ?thesis
    using assms(1) by (simp add: skipSpaces_append)
qed

lemma skipSpaces_signed:
  assumes "list_all isSpace ws" "isSignPart sg" "n \<noteq> []" "\<not> isSpace (hd n)"
  shows "skipSpaces (ws @ sg @ n @ r) = sg @ n @ r"
proof -
  obtain c n' where n: "n = c # n'" "\<not> isSpace c"
    using assms(3,4) by (cases n) auto
  have "sg = [] \<or> sg = ''+'' \<or> sg = ''-''"
    using assms(2) by (simp add: isSignPart_def)
  moreover have "\<not> isSpace (CHR ''+'')" "\<not> isSpace (CHR ''-'')"
    by (simp_all add: isSpace_def)
  ultimately have "skipSpaces (sg @ n @ r) = sg @ n @ r"
    using n by (auto simp: skipSpaces_Cons)
  then show ?thesis
    using assms(1) by (simp add: skipSpaces_append)
qed

lemma dimenEnd_ok:
  assumes "list_all isSpace ws1" "list_all isSpace ws2" "list_all isSpace ws3"
    and "isSignPart sg" "n \<noteq> []" "\<not> isSign (hd n)" "\<not> isSpace (hd n)"
    and "\<And>r. noNumberAhead r \<Longrightarrow> matchUnsigned (n @ r) = Some (n, r)"
    and "u \<in> set units"
  shows "dimenEnd (ws1 @ sg @ n @ ws2 @ u @ ws3)
       = Some (ws1 @ sg @ n @ ws2 @ u @ ws3, sg @ n, u)"
proof -
  have ahead: "noNumberAhead (ws2 @ u @ ws3)"
    using assms(2,9) by (rule noNumberAhead_unit)
  have 1: "skipSpaces (ws1 @ sg @ n @ ws2 @ u @ ws3) = sg @ n @ ws2 @ u @ ws3"
    using assms(1,4,5,7) by (rule skipSpaces_signed)
  have 2: "matchNum (sg @ n @ ws2 @ u @ ws3) = Some (sg @ n, ws2 @ u @ ws3)"
    using assms(4,5,6) assms(8) [OF ahead] by (rule matchNum_ok)
  have 3: "skipSpaces (ws2 @ u @ ws3) = u @ ws3"
    using assms(2,9) by (rule skipSpaces_unit)
  have 4: "matchUnit (u @ ws3) = Some (u, ws3)"
    using assms(9) by (rule matchUnit_ok)
  have 5: "skipSpaces ws3 = []"
    using assms(3) by (rule skipSpaces_all)
  show ?thesis
    by (simp only: dimenEnd_def dimenPrefix_def 1 2 3 4 5 option.case prod.case if_True refl)
qed

lemma matchDimen_numeral:
  assumes "list_all isSpace ws1" "list_all isSpace ws2" "list_all isSpace ws3"
    and "isSignPart sg" "ip \<noteq> []" "list_all isDigit ip" "isFractionPart fr" "u \<in> set units"
  shows "matchDimen (ws1 @ sg @ ip @ fr @ ws2 @ u @ ws3) False
       = (Some (sg @ ip @ replaceComma fr), Some u,
          length (ws1 @ sg @ ip @ fr @ ws2 @ u @ ws3))"
proof -
  let ?n = "ip @ fr"
  have hd: "isDigit (hd ?n)" "?n \<noteq> []"
    using assms(5,6) by (cases ip; simp)+
  have un: "matchUnsigned (?n @ r) = Some (?n, r)" if "noNumberAhead r" for r
  proof (cases fr)
    case Nil
    then show ?thesis using matchUnsigned_int [OF assms(5,6) that] by simp
  next
    case (Cons sep fp)
    have "noDigitAhead r"
      using that by (auto simp: noDigitAhead_def noNumberAhead_def split: list.splits)
    then show ?thesis
      using matchUnsigned_frac [of ip sep fp r] assms(5,6,7) Cons
      by (simp add: isFractionPart_def)
  qed
  have "dimenEnd (ws1 @ sg @ ?n @ ws2 @ u @ ws3)
      = Some (ws1 @ sg @ ?n @ ws2 @ u @ ws3, sg @ ?n, u)"
    using assms(1,2,3,4) hd(2) _ _ un assms(8)
    by (rule dimenEnd_ok) (use hd digit_not_other in blast)+
  moreover have "replaceComma (sg @ ?n) = sg @ ip @ replaceComma fr"
    using assms(4,6) by (simp add: replaceComma_no_comma sign_no_comma digits_no_comma)
  ultimately show ?thesis
    by (simp add: matchDimen_def)
qed

lemma matchDimen_leading_separator:
  assumes "list_all isSpace ws1" "list_all isSpace ws2" "list_all isSpace ws3"
    and "isSignPart sg" "isSeparator sep" "fp \<noteq> []" "list_all isDigit fp" "u \<in> set units"
  shows "matchDimen (ws1 @ sg @ sep # fp @ ws2 @ u @ ws3) False
       = (Some (sg @ CHR ''.'' # fp), Some u,
          length (ws1 @ sg @ sep # fp @ ws2 @ u @ ws3))"
proof -
  let ?n = "sep # fp"
  have un: "matchUnsigned (?n @ r) = Some (?n, r)" if "noNumberAhead r" for r
  proof -
    have "noDigitAhead r"
      using that by (auto simp: noDigitAhead_def noNumberAhead_def split: list.splits)
    then show ?thesis
      using matchUnsigned_lead [OF assms(5,6,7)] by simp
  qed
  have "dimenEnd (ws1 @ sg @ ?n @ ws2 @ u @ ws3)
      = Some (ws1 @ sg @ ?n @ ws2 @ u @ ws3, sg @ ?n, u)"
    using assms(1,2,3,4) _ _ _ un assms(8)
    by (rule dimenEnd_ok) (use assms(5) separator_not_other in auto)
  moreover have "replaceComma (sg @ ?n) = sg @ CHR ''.'' # fp"
    using assms(4,5,7)
    by (auto simp: replaceComma_no_comma sign_no_comma isSeparator_def replaceComma_id digits_no_comma)
  ultimately show ?thesis
    by (simp add: matchDimen_def)
qed

lemma dimenEnd_Some: "dimenEnd dimen = Some (m0, n, u) \<Longrightarrow> m0 = dimen \<and> u \<in> set units"
  by (auto simp: dimenEnd_def dimenPrefix_def matchUnit_def split: option.splits if_splits)

lemma matchDimen_total:
  "matchDimen dimen False = (None, None, 0)
   \<or> (\<exists>v u. matchDimen dimen False = (Some v, Some u, length dimen) \<and> u \<in> set units)"
proof (cases "dimenEnd dimen")
  case None
  then show ?thesis by (simp add: matchDimen_def)
next
  case (Some m)
  obtain m0 n u where m: "m = (m0, n, u)" by (cases m)
  show ?thesis
    using dimenEnd_Some [of dimen m0 n u] Some m by (simp add: matchDimen_def)
qed


lemma spaces_split: "s = takeWhile isSpace s @ skipSpaces s \<and> list_all isSpace (takeWhile isSpace s)"
  by (simp add: skipSpaces_def list_all_iff) (meson set_takeWhileD)

lemma digits_split: "s = takeWhile isDigit s @ dropWhile isDigit s \<and> list_all isDigit (takeWhile isDigit s)"
  by (simp add: list_all_iff) (meson set_takeWhileD)

lemma skipSpaces_Nil: "skipSpaces r = [] \<Longrightarrow> list_all isSpace r"
  by (simp add: skipSpaces_def list_all_iff)

lemma matchSign_Some:
  "matchSign s = (sg, r) \<Longrightarrow> isSignPart sg \<and> s = sg @ r"
  by (cases s) (auto simp: matchSign_def isSignPart_def isSign_def split: if_splits)

lemma matchUnit_Some: "matchUnit s = Some (u, r) \<Longrightarrow> u \<in> set units \<and> s = u @ r"
  by (auto simp: matchUnit_def split: if_splits)

lemma matchUnsigned_Some:
  assumes "matchUnsigned s = Some (n, r)"
  shows "s = n @ r
       \<and> ((\<exists>ip fr. n = ip @ fr \<and> ip \<noteq> [] \<and> list_all isDigit ip \<and> isFractionPart fr)
          \<or> (\<exists>sep fp. n = sep # fp \<and> isSeparator sep \<and> fp \<noteq> [] \<and> list_all isDigit fp))"
proof (cases s)
  case Nil
  then show ?thesis using assms by (simp add: matchUnsigned_def)
next
  case (Cons c t)
  show ?thesis
  proof (cases "isSeparator c")
    case True
    then have n: "n = c # takeWhile isDigit t" "r = dropWhile isDigit t" "takeWhile isDigit t \<noteq> []"
      using assms Cons by (auto simp: matchUnsigned_def split: if_splits)
    have "list_all isDigit (takeWhile isDigit t)"
      using digits_split [of t] by simp
    then show ?thesis
      using n True Cons by auto
  next
    case False
    then have d: "isDigit c"
      using assms Cons by (auto simp: matchUnsigned_def split: if_splits)
    let ?ip = "takeWhile isDigit s"
    have ip: "?ip \<noteq> []" "list_all isDigit ?ip"
      using d Cons digits_split [of s] by auto
    have m: "(case dropWhile isDigit s of
        [] \<Rightarrow> Some (?ip, [])
      | d # r' \<Rightarrow>
         if isSeparator d
         then Some (?ip @ d # takeWhile isDigit r', dropWhile isDigit r')
         else Some (?ip, d # r')) = Some (n, r)"
      using assms matchUnsigned_digit_head [of s] Cons d by simp
    have id: "takeWhile isDigit s @ dropWhile isDigit s = s"
      by (rule takeWhile_dropWhile_id)
    show ?thesis
    proof (cases "dropWhile isDigit s")
      case Nil
      have "Some (?ip, []) = Some (n, r)"
        using m by (simp only: Nil list.case)
      then have n: "n = ?ip" "r = []"
        by simp_all
      have s: "s = n @ r"
        using id by (simp only: Nil n append_Nil2)
      have f: "isFractionPart []"
        by (simp add: isFractionPart_def)
      have "n = ?ip @ [] \<and> ?ip \<noteq> [] \<and> list_all isDigit ?ip \<and> isFractionPart []"
        using n(1) ip f by simp
      then show ?thesis
        using s by blast
    next
      case (Cons e r')
      have id': "takeWhile isDigit r' @ dropWhile isDigit r' = r'"
        by (rule takeWhile_dropWhile_id)
      show ?thesis
      proof (cases "isSeparator e")
        case True
        let ?fp = "takeWhile isDigit r'"
        have "Some (?ip @ e # ?fp, dropWhile isDigit r') = Some (n, r)"
          using m True by (simp only: Cons list.case if_True)
        then have n: "n = ?ip @ e # ?fp" "r = dropWhile isDigit r'"
          by simp_all
        have fp: "list_all isDigit ?fp"
          using digits_split [of r'] by simp
        have "s = ?ip @ e # ?fp @ dropWhile isDigit r'"
          using id by (simp only: Cons id')
        then have s: "s = n @ r"
          by (simp only: n append_assoc append_Cons)
        have "isFractionPart (e # ?fp)"
          using True fp by (simp add: isFractionPart_def)
        then have "n = ?ip @ e # ?fp \<and> ?ip \<noteq> [] \<and> list_all isDigit ?ip \<and> isFractionPart (e # ?fp)"
          using n(1) ip by simp
        then show ?thesis
          using s by blast
      next
        case False
        have "Some (?ip, e # r') = Some (n, r)"
          using m False by (simp only: Cons list.case if_False)
        then have n: "n = ?ip" "r = e # r'"
          by simp_all
        have s: "s = n @ r"
          using id by (simp only: Cons n)
        have f: "isFractionPart []"
          by (simp add: isFractionPart_def)
        have "n = ?ip @ [] \<and> ?ip \<noteq> [] \<and> list_all isDigit ?ip \<and> isFractionPart []"
          using n(1) ip f by simp
        then show ?thesis
          using s by blast
      qed
    qed
  qed
qed

lemma dimenEnd_literal:
  assumes "dimenEnd dimen = Some (m0, n, u)"
  shows "(\<exists>ws1 sg ip fr ws2 ws3.
            list_all isSpace ws1 \<and> list_all isSpace ws2 \<and> list_all isSpace ws3 \<and> isSignPart sg
            \<and> ip \<noteq> [] \<and> list_all isDigit ip \<and> isFractionPart fr \<and> u \<in> set units
            \<and> dimen = ws1 @ sg @ ip @ fr @ ws2 @ u @ ws3)
       \<or> (\<exists>ws1 sg sep fp ws2 ws3.
            list_all isSpace ws1 \<and> list_all isSpace ws2 \<and> list_all isSpace ws3 \<and> isSignPart sg
            \<and> isSeparator sep \<and> fp \<noteq> [] \<and> list_all isDigit fp \<and> u \<in> set units
            \<and> dimen = ws1 @ sg @ sep # fp @ ws2 @ u @ ws3)"
proof -
  obtain r where p: "dimenPrefix dimen = Some (n, u, r)" and r: "skipSpaces r = []"
    using assms by (auto simp: dimenEnd_def split: option.splits if_splits)
  obtain r1 where mn: "matchNum (skipSpaces dimen) = Some (n, r1)"
    and mu: "matchUnit (skipSpaces r1) = Some (u, r)"
    using p by (auto simp: dimenPrefix_def split: option.splits)
  obtain sg t where ms: "matchSign (skipSpaces dimen) = (sg, t)"
    by (cases "matchSign (skipSpaces dimen)")
  obtain k where un: "matchUnsigned t = Some (k, r1)" and n: "n = sg @ k"
    using mn ms by (auto simp: matchNum_def split: option.splits)
  let ?ws1 = "takeWhile isSpace dimen" and ?ws2 = "takeWhile isSpace r1"
  have sg: "isSignPart sg" "skipSpaces dimen = sg @ t"
    using matchSign_Some [OF ms] by simp_all
  have u: "u \<in> set units" "skipSpaces r1 = u @ r"
    using matchUnit_Some [OF mu] by simp_all
  have t: "t = k @ r1"
    using matchUnsigned_Some [OF un] by simp
  have w: "list_all isSpace ?ws1" "list_all isSpace ?ws2" "list_all isSpace r"
    using spaces_split [of dimen] spaces_split [of r1] skipSpaces_Nil [OF r] by simp_all
  have d: "dimen = ?ws1 @ sg @ k @ ?ws2 @ u @ r"
    using spaces_split [of dimen] spaces_split [of r1] sg(2) u(2) t by simp
  from matchUnsigned_Some [OF un]
  consider ip fr where "k = ip @ fr" "ip \<noteq> []" "list_all isDigit ip" "isFractionPart fr"
    | sep fp where "k = sep # fp" "isSeparator sep" "fp \<noteq> []" "list_all isDigit fp"
    by blast
  then show ?thesis
  proof cases
    case 1
    have "dimen = ?ws1 @ sg @ ip @ fr @ ?ws2 @ u @ r"
      using d 1(1) by simp
    then show ?thesis
      using w sg(1) 1(2,3,4) u(1) by blast
  next
    case 2
    have "dimen = ?ws1 @ sg @ sep # fp @ ?ws2 @ u @ r"
      using d 2(1) by simp
    then show ?thesis
      using w sg(1) 2(2,3,4) u(1) by blast
  qed
qed

lemma matchDimen_literal_only:
  assumes "matchDimen dimen False \<noteq> (None, None, 0)"
  shows "(\<exists>ws1 sg ip fr ws2 u ws3.
            list_all isSpace ws1 \<and> list_all isSpace ws2 \<and> list_all isSpace ws3 \<and> isSignPart sg
            \<and> ip \<noteq> [] \<and> list_all isDigit ip \<and> isFractionPart fr \<and> u \<in> set units
            \<and> dimen = ws1 @ sg @ ip @ fr @ ws2 @ u @ ws3)
       \<or> (\<exists>ws1 sg sep fp ws2 u ws3.
            list_all isSpace ws1 \<and> list_all isSpace ws2 \<and> list_all isSpace ws3 \<and> isSignPart sg
            \<and> isSeparator sep \<and> fp \<noteq> [] \<and> list_all isDigit fp \<and> u \<in> set units
            \<and> dimen = ws1 @ sg @ sep # fp @ ws2 @ u @ ws3)"
proof -
  obtain m0 n u where "dimenEnd dimen = Some (m0, n, u)"
    using assms by (cases "dimenEnd dimen") (auto simp: matchDimen_def)
  from dimenEnd_literal [OF this] show ?thesis
    by blast
qed

text \<open>
  Claim C7.  A dimension literal made of an optional sign, one or more digits, an
  optional point or comma with the digits behind it, and one of the nine units (with
  white space allowed before the numeral, before the unit and at the end) is matched by
  \<open>matchDimen\<close> without trailing text allowed: the result is the numeral with its comma
  turned into a point, the unit, and the length of the whole input.  The same holds for
  a numeral that starts with the separator.  A string that the expression does not match
  gives \<open>(None, None, 0)\<close>; these are the only two outcomes, and the function is total.
  Only these literals are matched: a string with another result than \<open>(None, None, 0)\<close>
  is made of white space, sign, numeral, white space, unit and white space in one of the
  two forms.  So there is no match for the empty string, for a unit or a numeral alone,
  for a separator without digits, for text before the numeral or behind the unit, for
  white space or a second separator inside the numeral, for two signs, for a sign apart
  from the digits, or for a unit that is split or in capitals.  The units are \<^verbatim>\<open>pt\<close>,
  \<^verbatim>\<open>em\<close>, \<^verbatim>\<open>ex\<close>, \<^verbatim>\<open>mu\<close>, \<^verbatim>\<open>px\<close>, \<^verbatim>\<open>mm\<close>, \<^verbatim>\<open>cm\<close>, \<^verbatim>\<open>in\<close> and \<^verbatim>\<open>pc\<close>, the signs \<^verbatim>\<open>+\<close> and \<^verbatim>\<open>-\<close>, the
  separators point and comma, the digits \<^verbatim>\<open>0\<close> to \<^verbatim>\<open>9\<close>, and white space is what \<^verbatim>\<open>\s\<close> matches.
\<close>

theorem matchDimen_literals:
  "(list_all isSpace ws1 \<and> list_all isSpace ws2 \<and> list_all isSpace ws3 \<and> isSignPart sg
      \<and> ip \<noteq> [] \<and> list_all isDigit ip \<and> isFractionPart fr \<and> u \<in> set units \<longrightarrow>
    matchDimen (ws1 @ sg @ ip @ fr @ ws2 @ u @ ws3) False
      = (Some (sg @ ip @ replaceComma fr), Some u, length (ws1 @ sg @ ip @ fr @ ws2 @ u @ ws3)))
   \<and> (isSignPart sg \<and> ip \<noteq> [] \<and> list_all isDigit ip \<and> isFractionPart fr \<and> u \<in> set units \<longrightarrow>
    matchDimen (sg @ ip @ fr @ u) False
      = (Some (sg @ ip @ replaceComma fr), Some u, length (sg @ ip @ fr @ u)))
   \<and> (isSignPart sg \<and> isSeparator sep \<and> fp \<noteq> [] \<and> list_all isDigit fp \<and> u \<in> set units \<longrightarrow>
    matchDimen (sg @ sep # fp @ u) False
      = (Some (sg @ CHR ''.'' # fp), Some u, length (sg @ sep # fp @ u)))
   \<and> (isFractionPart fr \<longrightarrow>
    replaceComma fr = (case fr of [] \<Rightarrow> [] | sep # fp \<Rightarrow> CHR ''.'' # fp))
   \<and> (dimenEnd dimen = None \<longrightarrow> matchDimen dimen False = (None, None, 0))
   \<and> (matchDimen dimen False = (None, None, 0)
      \<or> (\<exists>v u. matchDimen dimen False = (Some v, Some u, length dimen) \<and> u \<in> set units))
   \<and> matchDimen ''1,5em'' False = (Some ''1.5'', Some ''em'', 5)
   \<and> matchDimen ''3xyz'' False = (None, None, 0)
   \<and> (list_all isSpace ws1 \<and> list_all isSpace ws2 \<and> list_all isSpace ws3 \<and> isSignPart sg
      \<and> isSeparator sep \<and> fp \<noteq> [] \<and> list_all isDigit fp \<and> u \<in> set units \<longrightarrow>
    matchDimen (ws1 @ sg @ sep # fp @ ws2 @ u @ ws3) False
      = (Some (sg @ CHR ''.'' # fp), Some u, length (ws1 @ sg @ sep # fp @ ws2 @ u @ ws3)))
   \<and> (matchDimen d False \<noteq> (None, None, 0) \<longrightarrow>
       (\<exists>ws1 sg ip fr ws2 u ws3.
          list_all isSpace ws1 \<and> list_all isSpace ws2 \<and> list_all isSpace ws3 \<and> isSignPart sg
          \<and> ip \<noteq> [] \<and> list_all isDigit ip \<and> isFractionPart fr \<and> u \<in> set units
          \<and> d = ws1 @ sg @ ip @ fr @ ws2 @ u @ ws3)
       \<or> (\<exists>ws1 sg sep fp ws2 u ws3.
          list_all isSpace ws1 \<and> list_all isSpace ws2 \<and> list_all isSpace ws3 \<and> isSignPart sg
          \<and> isSeparator sep \<and> fp \<noteq> [] \<and> list_all isDigit fp \<and> u \<in> set units
          \<and> d = ws1 @ sg @ sep # fp @ ws2 @ u @ ws3))
   \<and> units = [''pt'', ''em'', ''ex'', ''mu'', ''px'', ''mm'', ''cm'', ''in'', ''pc'']
   \<and> isSignPart sg = (sg = [] \<or> sg = ''+'' \<or> sg = ''-'')
   \<and> isSeparator sep = (sep = CHR ''.'' \<or> sep = CHR '','')
   \<and> isDigit c = (c \<in> set ''0123456789'')
   \<and> isSpace c = (c \<in> {CHR 0x09, CHR 0x0A, CHR 0x0B, CHR 0x0C, CHR 0x0D, CHR 0x20, CHR 0xA0})
   \<and> matchDimen ''+1.pt'' False = (Some ''+1.'', Some ''pt'', 5)
   \<and> matchDimen ''1a5pt'' False = (None, None, 0)
   \<and> matchDimen ''1xy'' False = (None, None, 0)
   \<and> matchDimen [] False = (None, None, 0)
   \<and> matchDimen ''pt'' False = (None, None, 0)
   \<and> matchDimen ''.pt'' False = (None, None, 0)
   \<and> matchDimen ''1'' False = (None, None, 0)
   \<and> matchDimen ''1pt garbage'' False = (None, None, 0)
   \<and> matchDimen ''1ptx'' False = (None, None, 0)
   \<and> matchDimen ''x1pt'' False = (None, None, 0)
   \<and> matchDimen ''1 2pt'' False = (None, None, 0)
   \<and> matchDimen ''1.2.3pt'' False = (None, None, 0)
   \<and> matchDimen ''+-1pt'' False = (None, None, 0)
   \<and> matchDimen ''- 1pt'' False = (None, None, 0)
   \<and> matchDimen ''1p t'' False = (None, None, 0)
   \<and> matchDimen ''1PT'' False = (None, None, 0)"
proof -
  have 1: "list_all isSpace ws1 \<and> list_all isSpace ws2 \<and> list_all isSpace ws3 \<and> isSignPart sg
      \<and> ip \<noteq> [] \<and> list_all isDigit ip \<and> isFractionPart fr \<and> u \<in> set units \<longrightarrow>
    matchDimen (ws1 @ sg @ ip @ fr @ ws2 @ u @ ws3) False
      = (Some (sg @ ip @ replaceComma fr), Some u, length (ws1 @ sg @ ip @ fr @ ws2 @ u @ ws3))"
    for ws1 ws2 ws3
    using matchDimen_numeral [of ws1 ws2 ws3 sg ip fr u] by blast
  have 2: "isSignPart sg \<and> ip \<noteq> [] \<and> list_all isDigit ip \<and> isFractionPart fr \<and> u \<in> set units \<longrightarrow>
    matchDimen (sg @ ip @ fr @ u) False
      = (Some (sg @ ip @ replaceComma fr), Some u, length (sg @ ip @ fr @ u))"
    using 1 [of "[]" "[]" "[]"] by simp
  have 3: "isSignPart sg \<and> isSeparator sep \<and> fp \<noteq> [] \<and> list_all isDigit fp \<and> u \<in> set units \<longrightarrow>
    matchDimen (sg @ sep # fp @ u) False
      = (Some (sg @ CHR ''.'' # fp), Some u, length (sg @ sep # fp @ u))"
    using matchDimen_leading_separator [of "[]" "[]" "[]" sg sep fp u] by simp
  have 4: "isFractionPart fr \<longrightarrow>
    replaceComma fr = (case fr of [] \<Rightarrow> [] | sep # fp \<Rightarrow> CHR ''.'' # fp)"
    using replaceComma_fraction by blast
  have 5: "dimenEnd dimen = None \<longrightarrow> matchDimen dimen False = (None, None, 0)"
    by (simp add: matchDimen_def)
  have 6: "matchDimen dimen False = (None, None, 0)
      \<or> (\<exists>v u. matchDimen dimen False = (Some v, Some u, length dimen) \<and> u \<in> set units)"
    by (rule matchDimen_total)
  have 7: "matchDimen ''1,5em'' False = (Some ''1.5'', Some ''em'', 5)"
    by code_simp
  have 8: "matchDimen ''3xyz'' False = (None, None, 0)"
    by code_simp
  have 9: "list_all isSpace ws1 \<and> list_all isSpace ws2 \<and> list_all isSpace ws3 \<and> isSignPart sg
      \<and> isSeparator sep \<and> fp \<noteq> [] \<and> list_all isDigit fp \<and> u \<in> set units \<longrightarrow>
    matchDimen (ws1 @ sg @ sep # fp @ ws2 @ u @ ws3) False
      = (Some (sg @ CHR ''.'' # fp), Some u, length (ws1 @ sg @ sep # fp @ ws2 @ u @ ws3))"
    using matchDimen_leading_separator [of ws1 ws2 ws3 sg sep fp u] by blast
  have 10: "matchDimen d False \<noteq> (None, None, 0) \<longrightarrow>
       (\<exists>ws1 sg ip fr ws2 u ws3.
          list_all isSpace ws1 \<and> list_all isSpace ws2 \<and> list_all isSpace ws3 \<and> isSignPart sg
          \<and> ip \<noteq> [] \<and> list_all isDigit ip \<and> isFractionPart fr \<and> u \<in> set units
          \<and> d = ws1 @ sg @ ip @ fr @ ws2 @ u @ ws3)
       \<or> (\<exists>ws1 sg sep fp ws2 u ws3.
          list_all isSpace ws1 \<and> list_all isSpace ws2 \<and> list_all isSpace ws3 \<and> isSignPart sg
          \<and> isSeparator sep \<and> fp \<noteq> [] \<and> list_all isDigit fp \<and> u \<in> set units
          \<and> d = ws1 @ sg @ sep # fp @ ws2 @ u @ ws3)"
    by (intro impI matchDimen_literal_only)
  have 24: "units = [''pt'', ''em'', ''ex'', ''mu'', ''px'', ''mm'', ''cm'', ''in'', ''pc'']"
    by (rule units_def)
  have 25: "isSignPart sg = (sg = [] \<or> sg = ''+'' \<or> sg = ''-'')"
    by (rule isSignPart_def)
  have 26: "isSeparator sep = (sep = CHR ''.'' \<or> sep = CHR '','')"
    by (rule isSeparator_def)
  have 27: "isDigit c = (c \<in> set ''0123456789'')"
    by (rule isDigit_def)
  have 28: "isSpace c = (c \<in> {CHR 0x09, CHR 0x0A, CHR 0x0B, CHR 0x0C, CHR 0x0D, CHR 0x20, CHR 0xA0})"
    by (rule isSpace_def)
  have 29: "matchDimen ''+1.pt'' False = (Some ''+1.'', Some ''pt'', 5)"
    by code_simp
  have 30: "matchDimen ''1a5pt'' False = (None, None, 0)"
    by code_simp
  have 31: "matchDimen ''1xy'' False = (None, None, 0)"
    by code_simp
  have 11: "matchDimen [] False = (None, None, 0)"
    by code_simp
  have 12: "matchDimen ''pt'' False = (None, None, 0)"
    by code_simp
  have 13: "matchDimen ''.pt'' False = (None, None, 0)"
    by code_simp
  have 14: "matchDimen ''1'' False = (None, None, 0)"
    by code_simp
  have 15: "matchDimen ''1pt garbage'' False = (None, None, 0)"
    by code_simp
  have 16: "matchDimen ''1ptx'' False = (None, None, 0)"
    by code_simp
  have 17: "matchDimen ''x1pt'' False = (None, None, 0)"
    by code_simp
  have 18: "matchDimen ''1 2pt'' False = (None, None, 0)"
    by code_simp
  have 19: "matchDimen ''1.2.3pt'' False = (None, None, 0)"
    by code_simp
  have 20: "matchDimen ''+-1pt'' False = (None, None, 0)"
    by code_simp
  have 21: "matchDimen ''- 1pt'' False = (None, None, 0)"
    by code_simp
  have 22: "matchDimen ''1p t'' False = (None, None, 0)"
    by code_simp
  have 23: "matchDimen ''1PT'' False = (None, None, 0)"
    by code_simp
  show ?thesis
    by (intro conjI 1 2 3 4 5 6 7 8 9 10 24 25 26 27 28 29 30 31 11 12 13 14 15 16 17 18 19 20 21 22 23)
qed

theorem matchDimen_literals_witness:
  "matchDimen '' -12,5 pt '' False = (Some ''-12.5'', Some ''pt'', 10)
   \<and> matchDimen ''-12,5pt'' False = (Some ''-12.5'', Some ''pt'', 7)
   \<and> matchDimen ''-.75pt'' False = (Some ''-.75'', Some ''pt'', 6)
   \<and> replaceComma '',5'' = ''.5''
   \<and> dimenEnd ''3xyz'' = None \<and> matchDimen ''3xyz'' False = (None, None, 0)
   \<and> matchDimen '' -.75 pt '' False = (Some ''-.75'', Some ''pt'', 9)
   \<and> ((\<exists>ws1 sg ip fr ws2 u ws3.
          list_all isSpace ws1 \<and> list_all isSpace ws2 \<and> list_all isSpace ws3 \<and> isSignPart sg
          \<and> ip \<noteq> [] \<and> list_all isDigit ip \<and> isFractionPart fr \<and> u \<in> set units
          \<and> ''1,5em'' = ws1 @ sg @ ip @ fr @ ws2 @ u @ ws3)
       \<or> (\<exists>ws1 sg sep fp ws2 u ws3.
          list_all isSpace ws1 \<and> list_all isSpace ws2 \<and> list_all isSpace ws3 \<and> isSignPart sg
          \<and> isSeparator sep \<and> fp \<noteq> [] \<and> list_all isDigit fp \<and> u \<in> set units
          \<and> ''1,5em'' = ws1 @ sg @ sep # fp @ ws2 @ u @ ws3))"
proof -
  have a: "isSpace (CHR '' '')" "isSignPart ''-''" "isDigit (CHR ''1'')" "isDigit (CHR ''2'')"
    "isDigit (CHR ''7'')" "isDigit (CHR ''5'')"
    "isFractionPart '',5''" "''pt'' \<in> set units" "isSeparator (CHR ''.'')"
    by (simp_all add: isSpace_def isSignPart_def isDigit_def isFractionPart_def isSeparator_def
        units_def)
  have b: "dimenEnd ''3xyz'' = None"
    by code_simp
  have c: "matchDimen ''1,5em'' False \<noteq> (None, None, 0)"
    by code_simp
  note t = matchDimen_literals [where ?ws1.0 = "'' ''" and ?ws2.0 = "'' ''" and ?ws3.0 = "'' ''"
        and sg = "''-''" and ip = "''12''" and fr = "'',5''" and u = "''pt''"
        and sep = "CHR ''.''" and fp = "''75''" and dimen = "''3xyz''" and d = "''1,5em''"]
  have 1: "matchDimen '' -12,5 pt '' False = (Some ''-12.5'', Some ''pt'', 10)
   \<and> matchDimen ''-12,5pt'' False = (Some ''-12.5'', Some ''pt'', 7)
   \<and> matchDimen ''-.75pt'' False = (Some ''-.75'', Some ''pt'', 6)
   \<and> replaceComma '',5'' = ''.5''
   \<and> dimenEnd ''3xyz'' = None \<and> matchDimen ''3xyz'' False = (None, None, 0)
   \<and> matchDimen '' -.75 pt '' False = (Some ''-.75'', Some ''pt'', 9)"
    using t [THEN conjunct1]
      t [THEN conjunct2, THEN conjunct1]
      t [THEN conjunct2, THEN conjunct2, THEN conjunct1]
      t [THEN conjunct2, THEN conjunct2, THEN conjunct2, THEN conjunct1]
      t [THEN conjunct2, THEN conjunct2, THEN conjunct2, THEN conjunct2, THEN conjunct1]
      t [THEN conjunct2, THEN conjunct2, THEN conjunct2, THEN conjunct2, THEN conjunct2, THEN conjunct2, THEN conjunct2, THEN conjunct2, THEN conjunct1]
    by (simp add: a b)
  have 2: "(\<exists>ws1 sg ip fr ws2 u ws3.
          list_all isSpace ws1 \<and> list_all isSpace ws2 \<and> list_all isSpace ws3 \<and> isSignPart sg
          \<and> ip \<noteq> [] \<and> list_all isDigit ip \<and> isFractionPart fr \<and> u \<in> set units
          \<and> ''1,5em'' = ws1 @ sg @ ip @ fr @ ws2 @ u @ ws3)
       \<or> (\<exists>ws1 sg sep fp ws2 u ws3.
          list_all isSpace ws1 \<and> list_all isSpace ws2 \<and> list_all isSpace ws3 \<and> isSignPart sg
          \<and> isSeparator sep \<and> fp \<noteq> [] \<and> list_all isDigit fp \<and> u \<in> set units
          \<and> ''1,5em'' = ws1 @ sg @ sep # fp @ ws2 @ u @ ws3)"
    using t [THEN conjunct2, THEN conjunct2, THEN conjunct2, THEN conjunct2, THEN conjunct2, THEN conjunct2, THEN conjunct2, THEN conjunct2, THEN conjunct2, THEN conjunct1] c by (rule mp)
  show ?thesis
    using 1 2 by (simp only: conj_assoc simp_thms)
qed

section \<open>Properties of the scanner\<close>

subsection \<open>The loop on ordinary characters\<close>

lemma loop_run:
  "st_i s < length (st_text s) \<Longrightarrow>
   internalMath_loop parse def s
     = (case step parse def s of Inl e \<Rightarrow> Inl e | Inr s' \<Rightarrow> internalMath_loop parse def s')"
  by (subst internalMath_loop.simps) simp

lemma loop_stop: "length (st_text s) \<le> st_i s \<Longrightarrow> internalMath_loop parse def s = Inr s"
  by (subst internalMath_loop.simps) simp

lemma step_inert:
  assumes "st_i s < length (st_text s)" "\<not> isTrigger (st_text s ! st_i s)"
  shows "step parse def s = Inr (s\<lparr>st_i := st_i s + 1\<rparr>)"
  using assms by (simp add: step_def charAt_def isTrigger_def Let_def)

lemma loop_inert_run:
  "inert run \<Longrightarrow> st_text s = A @ run @ B \<Longrightarrow> st_i s = length A \<Longrightarrow>
   internalMath_loop parse def s
     = internalMath_loop parse def (s\<lparr>st_i := length A + length run\<rparr>)"
proof (induction run arbitrary: A s)
  case Nil
  then have "s\<lparr>st_i := length A + length []\<rparr> = s" by simp
  then show ?case by simp
next
  case (Cons c run)
  have c: "\<not> isTrigger c" and run: "inert run"
    using Cons.prems(1) by (simp_all add: inert_def)
  have i: "st_i s < length (st_text s)" "st_text s ! st_i s = c"
    using Cons.prems(2,3) by simp_all
  have "internalMath_loop parse def s = internalMath_loop parse def (s\<lparr>st_i := st_i s + 1\<rparr>)"
    using i c by (simp add: loop_run step_inert)
  also have "\<dots> = internalMath_loop parse def
                     (s\<lparr>st_i := st_i s + 1\<rparr>\<lparr>st_i := length (A @ [c]) + length run\<rparr>)"
    using run Cons.prems(2,3) by (intro Cons.IH) simp_all
  finally show ?case by simp
qed

lemma triggerAt_Cons: "triggerAt (c # cs) = isTrigger c"
  by (auto simp: triggerAt_def isTrigger_def)

lemma hasTrigger_inert: "hasTrigger s = (\<not> inert s)"
  by (induction s) (auto simp: triggerAt_Cons inert_def)

lemma loop_inert_text:
  assumes "inert s"
  shows "internalMath_loop parse def (initial s) = Inr ((initial s)\<lparr>st_i := length s\<rparr>)"
proof -
  have "internalMath_loop parse def (initial s)
      = internalMath_loop parse def ((initial s)\<lparr>st_i := length [] + length s\<rparr>)"
    using loop_inert_run [OF assms, of "initial s" "[]" "[]" parse def] by (simp add: initial_def)
  then show ?thesis
    by (simp add: loop_stop initial_def)
qed


lemma loop_inert_then_step:
  assumes "inert run" "st_text s = A @ run @ c # B" "st_i s = length A"
  shows "internalMath_loop parse def s
       = (case step parse def (s\<lparr>st_i := length A + length run\<rparr>) of
            Inl e \<Rightarrow> Inl e
          | Inr s' \<Rightarrow> internalMath_loop parse def s')"
proof -
  have "internalMath_loop parse def s
      = internalMath_loop parse def (s\<lparr>st_i := length A + length run\<rparr>)"
    using assms by (rule loop_inert_run)
  also have "\<dots> = (case step parse def (s\<lparr>st_i := length A + length run\<rparr>) of
            Inl e \<Rightarrow> Inl e
          | Inr s' \<Rightarrow> internalMath_loop parse def s')"
    using assms(2) by (intro loop_run) simp
  finally show ?thesis .
qed

lemma loop_inert_to_end:
  assumes "inert run" "st_text s = A @ run" "st_i s = length A"
  shows "internalMath_loop parse def s = Inr (s\<lparr>st_i := length A + length run\<rparr>)"
proof -
  have "internalMath_loop parse def s
      = internalMath_loop parse def (s\<lparr>st_i := length A + length run\<rparr>)"
    using assms(1) _ assms(3) by (rule loop_inert_run [where B = "[]"]) (simp add: assms(2))
  also have "\<dots> = Inr (s\<lparr>st_i := length A + length run\<rparr>)"
    using assms(2) by (intro loop_stop) simp
  finally show ?thesis .
qed

lemma step_dollar_close:
  assumes "st_i s < length (st_text s)" "st_text s ! st_i s = CHR ''$''"
    and "st_match s = ''$''" "st_braces s = 0"
  shows "step parse def s
       = (case parse (slice (st_text s) (st_k s) (st_i s)) of
            Inl e \<Rightarrow> Inl e
          | Inr t \<Rightarrow>
             Inr (s\<lparr>st_mml := st_mml s @ [createNode ''TeXAtom'' [t] [] None],
                    st_match := [], st_k := st_i s + 1, st_i := st_i s + 1\<rparr>))"
  using assms by (simp add: step_def charAt_def Let_def cong: sum.case_cong)

lemma step_dollar_open:
  assumes "st_i s < length (st_text s)" "st_text s ! st_i s = CHR ''$''" "st_match s = []"
  shows "step parse def s
       = Inr (s\<lparr>st_mml := pushText def s (st_i s), st_match := ''$'',
                st_k := st_i s + 1, st_i := st_i s + 1\<rparr>)"
  using assms by (simp add: step_def charAt_def Let_def)

lemma refMatch_trigger: "isTrigger c \<Longrightarrow> refMatch (c # r) = None"
  by (auto simp: refMatch_def isTrigger_def backslash_def Let_def)

lemma step_strip:
  assumes "st_i s + 1 < length (st_text s)" "st_text s ! st_i s = backslash"
    and "isTrigger (st_text s ! (st_i s + 1))" "st_match s = []"
  shows "step parse def s
       = Inr (s\<lparr>st_text := take (st_i s) (st_text s) @ drop (st_i s + 1) (st_text s),
                st_i := st_i s + 1\<rparr>)"
proof -
  have d: "drop (Suc (st_i s)) (st_text s) = st_text s ! Suc (st_i s) # drop (Suc (Suc (st_i s))) (st_text s)"
    using assms(1) by (simp add: Cons_nth_drop_Suc)
  have r: "refMatch (drop (Suc (st_i s)) (st_text s)) = None"
    using assms(3) by (simp add: d refMatch_trigger)
  have c: "charAt (st_text s) (st_i s) = [backslash]"
    "charAt (st_text s) (Suc (st_i s)) = [st_text s ! Suc (st_i s)]"
    using assms(1,2) by (simp_all add: charAt_def)
  have n: "st_text s ! (st_i s + 1) \<noteq> CHR ''(''" "st_text s ! (st_i s + 1) \<noteq> CHR '')''"
    using assms(3) by (auto simp: isTrigger_def backslash_def)
  show ?thesis
    using assms(3,4) n
    by (simp add: step_def Let_def c r backslash_def matchesTrigger_def substr_to_def
        substr_from_def)
qed


lemma pushText_eq:
  "st_k s \<le> e \<Longrightarrow> pushText def s e = st_mml s @ textBlock (slice (st_text s) (st_k s) e) def" 
  if "e \<le> length (st_text s)"
  using that by (auto simp: pushText_def textBlock_def slice_def)

lemma hasTrigger_mem: "c \<in> set s \<Longrightarrow> isTrigger c \<Longrightarrow> hasTrigger s"
  by (auto simp: hasTrigger_inert inert_def list_all_iff)

lemma dollar_trigger: "isTrigger (CHR ''$'')"
  by (simp add: isTrigger_def)

lemma segments_dollar:
  assumes "inert pre" "inert body" "inert post"
  shows "segments parse font (pre @ ''$'' @ body @ ''$'' @ post)
       = (case parse body of
            Inl e \<Rightarrow> Inl e
          | Inr t \<Rightarrow>
             Inr (textBlock pre (fontDef font) @ [createNode ''TeXAtom'' [t] [] None]
                  @ textBlock post (fontDef font)))"
proof -
  let ?T = "pre @ ''$'' @ body @ ''$'' @ post"
  let ?d = "fontDef font"
  define s0 where "s0 = (initial ?T)\<lparr>st_i := length pre\<rparr>"
  define s1 where "s1 = \<lparr>st_text = ?T, st_mml = textBlock pre ?d, st_i = length pre + 1,
    st_k = length pre + 1, st_match = ''$'', st_braces = 0\<rparr>"
  define s1' where "s1' = s1\<lparr>st_i := length (pre @ ''$'') + length body\<rparr>"
  define s2 where "s2 = (\<lambda>t. \<lparr>st_text = ?T,
    st_mml = textBlock pre ?d @ [createNode ''TeXAtom'' [t] [] None],
    st_i = length pre + length body + 2, st_k = length pre + length body + 2,
    st_match = [], st_braces = 0\<rparr>)"
  have a: "internalMath_loop parse ?d (initial ?T)
         = (case step parse ?d s0 of Inl e \<Rightarrow> Inl e | Inr s' \<Rightarrow> internalMath_loop parse ?d s')"
    using loop_inert_then_step [OF assms(1), of "initial ?T" "[]" "CHR ''$''" "body @ ''$'' @ post"
        parse ?d]
    by (simp add: initial_def s0_def)
  have b: "step parse ?d s0 = Inr s1"
    by (subst step_dollar_open)
      (auto simp: s0_def s1_def initial_def nth_append pushText_def textBlock_def slice_def)
  have c: "internalMath_loop parse ?d s1
         = (case step parse ?d s1' of Inl e \<Rightarrow> Inl e | Inr s' \<Rightarrow> internalMath_loop parse ?d s')"
    unfolding s1'_def
    by (rule loop_inert_then_step [OF assms(2), where c = "CHR ''$''" and B = post])
      (simp_all add: s1_def)
  have d: "step parse ?d s1'
         = (case parse body of Inl e \<Rightarrow> Inl e | Inr t \<Rightarrow> Inr (s2 t))"
    by (subst step_dollar_close)
      (auto simp: s1'_def s1_def s2_def nth_append slice_def split: sum.splits)
  have e: "internalMath_loop parse ?d (s2 t) = Inr ((s2 t)\<lparr>st_i := length ?T\<rparr>)" for t
    using loop_inert_to_end [OF assms(3), of "s2 t" "pre @ ''$'' @ body @ ''$''" parse ?d]
    by (simp add: s2_def)
  have f: "hasTrigger ?T"
    by (rule hasTrigger_mem [OF _ dollar_trigger]) simp
  have g: "pushText ?d ((s2 t)\<lparr>st_i := length ?T\<rparr>) (length ?T)
         = textBlock pre ?d @ [createNode ''TeXAtom'' [t] [] None] @ textBlock post ?d" for t
    by (auto simp: pushText_def s2_def textBlock_def slice_def)
  have m: "st_match ((s2 t)\<lparr>st_i := length ?T\<rparr>) = []"
    "st_text ((s2 t)\<lparr>st_i := length ?T\<rparr>) = ?T" for t
    by (simp_all add: s2_def)
  show ?thesis
  proof (cases "parse body")
    case (Inl err)
    then have "internalMath_loop parse ?d (initial ?T) = Inl err"
      by (simp only: a b c d sum.case)
    then show ?thesis
      using f Inl by (simp only: segments_def scanText_def if_True sum.case)
  next
    case (Inr t)
    then have "internalMath_loop parse ?d (initial ?T) = Inr ((s2 t)\<lparr>st_i := length ?T\<rparr>)"
      by (simp only: a b c d e sum.case)
    then show ?thesis
      using f Inr
      by (simp only: segments_def scanText_def if_True sum.case m g refl if_False not_True_eq_False
          simp_thms scan.simps)
  qed
qed


lemma scanText_unterminated:
  assumes "internalMath_loop parse def (initial s) = Inr s'" "st_match s' \<noteq> []"
  shows "scanText parse def s = Inl MathNotTerminated"
proof (cases "hasTrigger s")
  case True
  then show ?thesis
    using assms by (simp add: scanText_def)
next
  case False
  then have "inert s"
    by (simp add: hasTrigger_inert)
  then have "internalMath_loop parse def (initial s) = Inr ((initial s)\<lparr>st_i := length s\<rparr>)"
    by (rule loop_inert_text)
  then have "st_match s' = []"
    using assms(1) by (auto simp: initial_def)
  then show ?thesis
    using assms(2) by simp
qed

lemma internalMath_unterminated:
  assumes "internalMath_loop parse (fontDef font) (initial s) = Inr s'" "st_match s' \<noteq> []"
  shows "internalMath parse font s level = Inl MathNotTerminated"
  using scanText_unterminated [OF assms]
  by (simp add: internalMath_def segments_def)

lemma backslash_trigger: "isTrigger backslash"
  by (simp add: isTrigger_def)

lemma refMatch_paren: "refMatch (CHR ''('' # r) = None"
  by (simp add: refMatch_def)

lemma step_paren_open:
  assumes "st_i s + 1 < length (st_text s)" "st_text s ! st_i s = backslash"
    and "st_text s ! (st_i s + 1) = CHR ''(''" "st_match s = []"
  shows "step parse def s
       = Inr (s\<lparr>st_mml := pushText def s (st_i s), st_match := '')'',
                st_k := st_i s + 2, st_i := st_i s + 2\<rparr>)"
proof -
  have d: "drop (Suc (st_i s)) (st_text s) = CHR ''('' # drop (Suc (Suc (st_i s))) (st_text s)"
    using assms(1,3) Cons_nth_drop_Suc [of "Suc (st_i s)" "st_text s"] by simp
  have c: "charAt (st_text s) (st_i s) = [backslash]"
    "charAt (st_text s) (Suc (st_i s)) = ''(''"
    using assms(1,2,3) by (simp_all add: charAt_def)
  show ?thesis
    using assms(4)
    by (simp add: step_def Let_def c d refMatch_paren backslash_def substr_from_def)
qed

lemma refMatch_ref: "refMatch (''ref{'' @ r) = Some 4"
  by (simp add: refMatch_def skipSpaces_def isSpace_def)

lemma step_ref_open:
  assumes "st_i s < length (st_text s)" "st_text s ! st_i s = backslash"
    and "refMatch (drop (st_i s + 1) (st_text s)) = Some len" "st_match s = []"
  shows "step parse def s
       = Inr (s\<lparr>st_mml := pushText def s (st_i s), st_match := ''}'',
                st_k := st_i s, st_i := st_i s + 1 + len\<rparr>)"
  using assms
  by (simp add: step_def Let_def charAt_def backslash_def substr_from_def)

lemma segments_open_dollar:
  assumes "inert pre" "inert body"
  shows "segments parse font (pre @ ''$'' @ body) = Inl MathNotTerminated"
proof -
  let ?T = "pre @ ''$'' @ body"
  let ?d = "fontDef font"
  define s0 where "s0 = (initial ?T)\<lparr>st_i := length pre\<rparr>"
  define s1 where "s1 = \<lparr>st_text = ?T, st_mml = textBlock pre ?d, st_i = length pre + 1,
    st_k = length pre + 1, st_match = ''$'', st_braces = 0\<rparr>"
  have a: "internalMath_loop parse ?d (initial ?T)
         = (case step parse ?d s0 of Inl e \<Rightarrow> Inl e | Inr s' \<Rightarrow> internalMath_loop parse ?d s')"
    using loop_inert_then_step [OF assms(1), of "initial ?T" "[]" "CHR ''$''" body parse ?d]
    by (simp add: initial_def s0_def)
  have b: "step parse ?d s0 = Inr s1"
    by (subst step_dollar_open)
      (auto simp: s0_def s1_def initial_def nth_append pushText_def textBlock_def slice_def)
  have c: "internalMath_loop parse ?d s1 = Inr (s1\<lparr>st_i := length (pre @ ''$'') + length body\<rparr>)"
    by (rule loop_inert_to_end [OF assms(2)]) (simp_all add: s1_def)
  have "internalMath_loop parse ?d (initial ?T)
      = Inr (s1\<lparr>st_i := length (pre @ ''$'') + length body\<rparr>)"
    by (simp only: a b c sum.case)
  moreover have "st_match (s1\<lparr>st_i := length (pre @ ''$'') + length body\<rparr>) \<noteq> []"
    by (simp add: s1_def)
  ultimately have "scanText parse ?d ?T = Inl MathNotTerminated"
    by (rule scanText_unterminated)
  then show ?thesis
    by (simp only: segments_def sum.case)
qed

lemma segments_open_paren:
  assumes "inert pre" "inert body"
  shows "segments parse font (pre @ [backslash, CHR ''(''] @ body) = Inl MathNotTerminated"
proof -
  let ?T = "pre @ [backslash, CHR ''(''] @ body"
  let ?d = "fontDef font"
  define s0 where "s0 = (initial ?T)\<lparr>st_i := length pre\<rparr>"
  define s1 where "s1 = \<lparr>st_text = ?T, st_mml = textBlock pre ?d, st_i = length pre + 2,
    st_k = length pre + 2, st_match = '')'', st_braces = 0\<rparr>"
  have a: "internalMath_loop parse ?d (initial ?T)
         = (case step parse ?d s0 of Inl e \<Rightarrow> Inl e | Inr s' \<Rightarrow> internalMath_loop parse ?d s')"
    using loop_inert_then_step [OF assms(1), of "initial ?T" "[]" backslash "CHR ''('' # body"
        parse ?d]
    by (simp add: initial_def s0_def)
  have b: "step parse ?d s0 = Inr s1"
    by (subst step_paren_open)
      (auto simp: s0_def s1_def initial_def nth_append pushText_def textBlock_def slice_def)
  have c: "internalMath_loop parse ?d s1
         = Inr (s1\<lparr>st_i := length (pre @ [backslash, CHR ''('']) + length body\<rparr>)"
    by (rule loop_inert_to_end [OF assms(2)]) (simp_all add: s1_def)
  have "internalMath_loop parse ?d (initial ?T)
      = Inr (s1\<lparr>st_i := length (pre @ [backslash, CHR ''('']) + length body\<rparr>)"
    by (simp only: a b c sum.case)
  moreover have "st_match (s1\<lparr>st_i := length (pre @ [backslash, CHR ''('']) + length body\<rparr>) \<noteq> []"
    by (simp add: s1_def)
  ultimately have "scanText parse ?d ?T = Inl MathNotTerminated"
    by (rule scanText_unterminated)
  then show ?thesis
    by (simp only: segments_def sum.case)
qed

lemma segments_open_ref:
  assumes "inert pre" "inert body"
  shows "segments parse font (pre @ [backslash] @ ''ref{'' @ body) = Inl MathNotTerminated"
proof -
  let ?T = "pre @ [backslash] @ ''ref{'' @ body"
  let ?d = "fontDef font"
  define s0 where "s0 = (initial ?T)\<lparr>st_i := length pre\<rparr>"
  define s1 where "s1 = \<lparr>st_text = ?T, st_mml = textBlock pre ?d, st_i = length pre + 5,
    st_k = length pre, st_match = ''}'', st_braces = 0\<rparr>"
  have a: "internalMath_loop parse ?d (initial ?T)
         = (case step parse ?d s0 of Inl e \<Rightarrow> Inl e | Inr s' \<Rightarrow> internalMath_loop parse ?d s')"
    using loop_inert_then_step [OF assms(1), of "initial ?T" "[]" backslash "''ref{'' @ body"
        parse ?d]
    by (simp add: initial_def s0_def)
  have r: "refMatch (drop (st_i s0 + 1) (st_text s0)) = Some 4"
    using refMatch_ref [of body] by (simp add: s0_def initial_def)
  have b: "step parse ?d s0 = Inr s1"
    by (subst step_ref_open [OF _ _ r])
      (auto simp: s0_def s1_def initial_def nth_append pushText_def textBlock_def slice_def)
  have c: "internalMath_loop parse ?d s1
         = Inr (s1\<lparr>st_i := length (pre @ [backslash] @ ''ref{'') + length body\<rparr>)"
    by (rule loop_inert_to_end [OF assms(2)]) (simp_all add: s1_def)
  have "internalMath_loop parse ?d (initial ?T)
      = Inr (s1\<lparr>st_i := length (pre @ [backslash] @ ''ref{'') + length body\<rparr>)"
    by (simp only: a b c sum.case)
  moreover have "st_match (s1\<lparr>st_i := length (pre @ [backslash] @ ''ref{'') + length body\<rparr>) \<noteq> []"
    by (simp add: s1_def)
  ultimately have "scanText parse ?d ?T = Inl MathNotTerminated"
    by (rule scanText_unterminated)
  then show ?thesis
    by (simp only: segments_def sum.case)
qed

lemma segments_escape:
  assumes "inert pre" "inert post" "isTrigger c"
  shows "segments parse font (pre @ [backslash, c] @ post)
       = Inr [internalText (pre @ [c] @ post) (fontDef font)]"
proof -
  let ?T = "pre @ [backslash, c] @ post"
  let ?T' = "pre @ [c] @ post"
  let ?d = "fontDef font"
  define s0 where "s0 = (initial ?T)\<lparr>st_i := length pre\<rparr>"
  define s1 where "s1 = \<lparr>st_text = ?T', st_mml = [], st_i = length pre + 1,
    st_k = 0, st_match = [], st_braces = 0\<rparr>"
  have a: "internalMath_loop parse ?d (initial ?T)
         = (case step parse ?d s0 of Inl e \<Rightarrow> Inl e | Inr s' \<Rightarrow> internalMath_loop parse ?d s')"
    using loop_inert_then_step [OF assms(1), of "initial ?T" "[]" backslash "c # post" parse ?d]
    by (simp add: initial_def s0_def)
  have b: "step parse ?d s0 = Inr s1"
    using assms(3)
    by (subst step_strip) (auto simp: s0_def s1_def initial_def nth_append)
  have c: "internalMath_loop parse ?d s1 = Inr (s1\<lparr>st_i := length (pre @ [c]) + length post\<rparr>)"
    by (rule loop_inert_to_end [OF assms(2)]) (simp_all add: s1_def)
  have l: "internalMath_loop parse ?d (initial ?T)
      = Inr (s1\<lparr>st_i := length (pre @ [c]) + length post\<rparr>)"
    by (simp only: a b c sum.case)
  have f: "hasTrigger ?T"
    by (rule hasTrigger_mem [OF _ backslash_trigger]) simp
  have g: "pushText ?d (s1\<lparr>st_i := length (pre @ [c]) + length post\<rparr>) (length ?T')
         = [internalText ?T' ?d]"
    by (simp add: pushText_def s1_def slice_def)
  have m: "st_match (s1\<lparr>st_i := length (pre @ [c]) + length post\<rparr>) = []"
    "st_text (s1\<lparr>st_i := length (pre @ [c]) + length post\<rparr>) = ?T'"
    by (simp_all add: s1_def)
  show ?thesis
    using f
    by (simp only: segments_def scanText_def if_True sum.case l m g refl if_False simp_thms)
qed

subsection \<open>The claims about the scanner\<close>

lemma replace_no_space:
  assumes "s \<noteq> []" "\<not> isSpace (hd s)" "\<not> isSpace (last s)"
  shows "replaceTrailing (replaceLeading s) = s"
proof -
  have 1: "replaceLeading s = s"
    using assms(1,2) by (cases s) (simp_all add: replaceLeading_def)
  have 2: "replaceTrailing s = s"
    using assms(1,3) by (cases "rev s") (auto simp: replaceTrailing_def last_rev [symmetric] simp del: last_rev)
  show ?thesis by (simp add: 1 2)
qed

lemma space_not_trigger: "isSpace c \<Longrightarrow> \<not> isTrigger c"
  by (auto simp: isSpace_def isTrigger_def backslash_def)

lemma spaces_inert: "list_all isSpace ws \<Longrightarrow> \<not> hasTrigger ws"
  using space_not_trigger by (auto simp: hasTrigger_inert inert_def list_all_iff)

lemma NBSP_space: "isSpace NBSP"
  by (simp add: isSpace_def NBSP_def)

lemma dropWhile_run: "list_all P ws \<Longrightarrow> s = [] \<or> \<not> P (hd s) \<Longrightarrow> dropWhile P (ws @ s) = s"
  by (induction ws) (cases s; auto)+

lemma replaceLeading_run:
  assumes "list_all isSpace ws" "r = [] \<or> \<not> isSpace (hd r)"
  shows "replaceLeading (ws @ r) = (if ws = [] then [] else [NBSP]) @ r"
proof (cases ws)
  case Nil
  then show ?thesis
    using assms(2) by (cases r) (simp_all add: replaceLeading_def)
next
  case (Cons c cs)
  have "dropWhile isSpace (ws @ r) = r"
    using assms by (intro dropWhile_run)
  then show ?thesis
    using Cons assms(1) by (simp add: replaceLeading_def)
qed

lemma replaceTrailing_run:
  assumes "list_all isSpace ws" "r = [] \<or> \<not> isSpace (last r)"
  shows "replaceTrailing (r @ ws) = r @ (if ws = [] then [] else [NBSP])"
proof (cases "rev ws")
  case Nil
  then have ws: "ws = []" by simp
  show ?thesis
  proof (cases "rev r")
    case Nil
    then show ?thesis using ws by (simp add: replaceTrailing_def)
  next
    case (Cons c cs)
    then have "r \<noteq> []" "last r = c"
      by (auto simp: last_rev [symmetric] simp del: last_rev)
    then show ?thesis
      using ws Cons assms(2) by (simp add: replaceTrailing_def)
  qed
next
  case (Cons c cs)
  have c: "isSpace c"
    using Cons assms(1) by (metis list.set_intros(1) list_all_iff set_rev)
  have h: "r = [] \<or> \<not> isSpace (hd (rev r))"
    using assms(2) by (auto simp: hd_rev)
  have "dropWhile isSpace (rev ws @ rev r) = rev r"
    using assms(1) h by (intro dropWhile_run) (auto simp: list_all_iff)
  then show ?thesis
    using Cons c by (simp add: replaceTrailing_def)
qed

lemma replace_runs:
  assumes "list_all isSpace ws1" "list_all isSpace ws2"
    and "core \<noteq> []" "\<not> isSpace (hd core)" "\<not> isSpace (last core)"
  shows "replaceTrailing (replaceLeading (ws1 @ core @ ws2))
       = (if ws1 = [] then [] else [NBSP]) @ core @ (if ws2 = [] then [] else [NBSP])"
proof -
  let ?p = "if ws1 = [] then [] else [NBSP]"
  have 1: "replaceLeading (ws1 @ core @ ws2) = ?p @ core @ ws2"
    using replaceLeading_run [OF assms(1), of "core @ ws2"] assms(3,4) by simp
  have 2: "replaceTrailing ((?p @ core) @ ws2) = (?p @ core) @ (if ws2 = [] then [] else [NBSP])"
    using assms(3,5) by (intro replaceTrailing_run [OF assms(2)]) simp
  show ?thesis
    using 1 2 by simp
qed

lemma replace_spaces:
  assumes "list_all isSpace ws" "ws \<noteq> []"
  shows "replaceTrailing (replaceLeading ws) = [NBSP]"
proof -
  have 1: "replaceLeading ws = [NBSP]"
    using replaceLeading_run [OF assms(1), of "[]"] assms(2) by simp
  have 2: "replaceTrailing [NBSP] = [NBSP]"
    by (simp add: replaceTrailing_def NBSP_space)
  show ?thesis
    using 1 2 by simp
qed

lemma segments_inert:
  assumes "\<not> hasTrigger s"
  shows "segments parse font s = Inr (textBlock s (fontDef font))"
  using assms by (simp add: segments_def scanText_def pushText_def textBlock_def initial_def slice_def)

text \<open>
  Claim C1.  In a state whose mode is the dollar block (\<open>st_match = ''$''\<close>), a \<open>$\<close> read
  at brace depth 0 hands the text between the two delimiters to the parser, appends
  the tree wrapped as a \<^verbatim>\<open>TeXAtom\<close> to the blocks, and returns to the plain mode
  (\<open>st_match = []\<close>) with the next block starting behind the delimiter.  So a text
  \<open>pre $ body $ post\<close> without further trigger characters gives the text block of
  \<open>pre\<close>, the parsed \<open>body\<close> and the text block of \<open>post\<close> (or the parser's error); for
  \<open>a $b$ c\<close> these are exactly three blocks: the text block for \<open>a \<close>, the parser's result
  on \<open>b\<close>, and the text block for \<open> c\<close>, which \<open>internalMath\<close> without a level returns
  inside one \<^verbatim>\<open>mrow\<close>.
\<close>

theorem internalMath_dollar_island:
  "(st_i s < length (st_text s) \<and> st_text s ! st_i s = CHR ''$'' \<and> st_match s = ''$''
      \<and> st_braces s = 0 \<longrightarrow>
    step parse def s
      = (case parse (slice (st_text s) (st_k s) (st_i s)) of
           Inl e \<Rightarrow> Inl e
         | Inr t \<Rightarrow>
            Inr (s\<lparr>st_mml := st_mml s @ [createNode ''TeXAtom'' [t] [] None],
                   st_match := [], st_k := st_i s + 1, st_i := st_i s + 1\<rparr>)))
   \<and> (inert pre \<and> inert body \<and> inert post \<longrightarrow>
    segments parse font (pre @ ''$'' @ body @ ''$'' @ post)
      = (case parse body of
           Inl e \<Rightarrow> Inl e
         | Inr t \<Rightarrow>
            Inr (textBlock pre (fontDef font) @ [createNode ''TeXAtom'' [t] [] None]
                 @ textBlock post (fontDef font))))
   \<and> segments parse font ''a $b$ c''
      = (case parse ''b'' of
           Inl e \<Rightarrow> Inl e
         | Inr t \<Rightarrow>
            Inr [internalText ''a '' (fontDef font), createNode ''TeXAtom'' [t] [] None,
                 internalText '' c'' (fontDef font)])
   \<and> internalMath parse font ''a $b$ c'' None
      = (case parse ''b'' of
           Inl e \<Rightarrow> Inl e
         | Inr t \<Rightarrow>
            Inr [createNode ''mrow''
                   [internalText ''a '' (fontDef font), createNode ''TeXAtom'' [t] [] None,
                    internalText '' c'' (fontDef font)] [] None])
   \<and> internalText ''a '' (fontDef font)
      = createNode ''mtext'' [] (fontDef font) (Some (createText [CHR ''a'', NBSP]))
   \<and> internalText '' c'' (fontDef font)
      = createNode ''mtext'' [] (fontDef font) (Some (createText [NBSP, CHR ''c'']))"
proof -
  have i: "inert ''a ''" "inert ''b''" "inert '' c''"
    by (simp_all add: inert_def isTrigger_def backslash_def)
  have 1: "st_i s < length (st_text s) \<and> st_text s ! st_i s = CHR ''$'' \<and> st_match s = ''$''
      \<and> st_braces s = 0 \<longrightarrow>
    step parse def s
      = (case parse (slice (st_text s) (st_k s) (st_i s)) of
           Inl e \<Rightarrow> Inl e
         | Inr t \<Rightarrow>
            Inr (s\<lparr>st_mml := st_mml s @ [createNode ''TeXAtom'' [t] [] None],
                   st_match := [], st_k := st_i s + 1, st_i := st_i s + 1\<rparr>))"
    using step_dollar_close [of s parse def] by blast
  have 2: "inert pre \<and> inert body \<and> inert post \<longrightarrow>
    segments parse font (pre @ ''$'' @ body @ ''$'' @ post)
      = (case parse body of
           Inl e \<Rightarrow> Inl e
         | Inr t \<Rightarrow>
            Inr (textBlock pre (fontDef font) @ [createNode ''TeXAtom'' [t] [] None]
                 @ textBlock post (fontDef font)))"
    using segments_dollar [of pre body post parse font] by blast
  have 3: "segments parse font ''a $b$ c''
      = (case parse ''b'' of
           Inl e \<Rightarrow> Inl e
         | Inr t \<Rightarrow>
            Inr [internalText ''a '' (fontDef font), createNode ''TeXAtom'' [t] [] None,
                 internalText '' c'' (fontDef font)])"
    using segments_dollar [OF i, of parse font] by (simp add: textBlock_def cong: sum.case_cong)
  have 4: "internalMath parse font ''a $b$ c'' None
      = (case parse ''b'' of
           Inl e \<Rightarrow> Inl e
         | Inr t \<Rightarrow>
            Inr [createNode ''mrow''
                   [internalText ''a '' (fontDef font), createNode ''TeXAtom'' [t] [] None,
                    internalText '' c'' (fontDef font)] [] None])"
    by (simp add: internalMath_def 3 split: sum.splits)
  have 5: "internalText ''a '' (fontDef font)
      = createNode ''mtext'' [] (fontDef font) (Some (createText [CHR ''a'', NBSP]))"
    by (simp add: internalText_def replaceLeading_def replaceTrailing_def isSpace_def)
  have 6: "internalText '' c'' (fontDef font)
      = createNode ''mtext'' [] (fontDef font) (Some (createText [NBSP, CHR ''c'']))"
    by (simp add: internalText_def replaceLeading_def replaceTrailing_def isSpace_def)
  show ?thesis
    by (intro conjI 1 2 3 4 5 6)
qed


theorem internalMath_dollar_island_witness:
  "step leafParser []
     \<lparr>st_text = ''$b$'', st_mml = [], st_i = 2, st_k = 1, st_match = ''$'', st_braces = 0\<rparr>
     = Inr \<lparr>st_text = ''$b$'',
            st_mml = [createNode ''TeXAtom'' [createNode ''mi'' [] [] (Some (createText ''b''))] [] None],
            st_i = 3, st_k = 3, st_match = [], st_braces = 0\<rparr>
   \<and> segments leafParser None (''x'' @ ''$'' @ ''y'' @ ''$'' @ [])
     = Inr [internalText ''x'' [],
            createNode ''TeXAtom'' [createNode ''mi'' [] [] (Some (createText ''y''))] [] None]
   \<and> internalMath leafParser None ''a $b$ c'' None
     = Inr [createNode ''mrow''
              [createNode ''mtext'' [] [] (Some (createText [CHR ''a'', NBSP])),
               createNode ''TeXAtom'' [createNode ''mi'' [] [] (Some (createText ''b''))] [] None,
               createNode ''mtext'' [] [] (Some (createText [NBSP, CHR ''c'']))] [] None]"
  using internalMath_dollar_island [where parse = leafParser and font = None and def = "[]"
      and s = "\<lparr>st_text = ''$b$'', st_mml = [], st_i = 2, st_k = 1, st_match = ''$'',
        st_braces = 0\<rparr>"
      and pre = "''x''" and body = "''y''" and post = "[]"]
  by (simp add: leafParser_def fontDef_def inert_def isTrigger_def backslash_def slice_def
      textBlock_def)

text \<open>
  Claim C2.  Whenever the loop ends with a block still open (\<open>st_match\<close> not empty),
  \<open>internalMath\<close> fails with \<open>MathNotTerminated\<close>: the result is the error only, and the
  blocks pushed before are not part of it.  This is the case for a dollar, a
  parenthesis and a reference block that is opened and followed by ordinary characters
  only, as in \<open>a $b\<close>.
\<close>

theorem internalMath_unterminated_island:
  "(internalMath_loop parse (fontDef font) (initial s) = Inr s' \<and> st_match s' \<noteq> [] \<longrightarrow>
    internalMath parse font s level = Inl MathNotTerminated)
   \<and> (inert pre \<and> inert body \<longrightarrow>
    internalMath parse font (pre @ ''$'' @ body) level = Inl MathNotTerminated)
   \<and> (inert pre \<and> inert body \<longrightarrow>
    internalMath parse font (pre @ [backslash, CHR ''(''] @ body) level = Inl MathNotTerminated)
   \<and> (inert pre \<and> inert body \<longrightarrow>
    internalMath parse font (pre @ [backslash] @ ''ref{'' @ body) level = Inl MathNotTerminated)
   \<and> internalMath parse font ''a $b'' level = Inl MathNotTerminated"
proof -
  have 1: "internalMath_loop parse (fontDef font) (initial s) = Inr s' \<and> st_match s' \<noteq> [] \<longrightarrow>
    internalMath parse font s level = Inl MathNotTerminated"
    using internalMath_unterminated [of parse font s s' level] by blast
  have 2: "inert pre \<and> inert body \<longrightarrow>
    internalMath parse font (pre @ ''$'' @ body) level = Inl MathNotTerminated" for pre body
    using segments_open_dollar [of pre body parse font] by (simp add: internalMath_def)
  have 3: "inert pre \<and> inert body \<longrightarrow>
    internalMath parse font (pre @ [backslash, CHR ''(''] @ body) level = Inl MathNotTerminated"
    using segments_open_paren [of pre body parse font] by (simp add: internalMath_def)
  have 4: "inert pre \<and> inert body \<longrightarrow>
    internalMath parse font (pre @ [backslash] @ ''ref{'' @ body) level = Inl MathNotTerminated"
    using segments_open_ref [of pre body parse font] by (simp add: internalMath_def)
  have 5: "internalMath parse font ''a $b'' level = Inl MathNotTerminated"
    using 2 [of "''a ''" "''b''"] by (simp add: inert_def isTrigger_def backslash_def)
  show ?thesis
    by (intro conjI 1 2 3 4 5)
qed

theorem internalMath_unterminated_island_witness:
  "internalMath_loop leafParser [] (initial ''$'')
     = Inr \<lparr>st_text = ''$'', st_mml = [], st_i = 1, st_k = 1, st_match = ''$'', st_braces = 0\<rparr>
   \<and> internalMath leafParser None ''$'' None = Inl MathNotTerminated
   \<and> internalMath leafParser None ''x$y'' None = Inl MathNotTerminated
   \<and> internalMath leafParser None (''x'' @ [backslash, CHR ''(''] @ ''y'') None
     = Inl MathNotTerminated
   \<and> internalMath leafParser None (''x'' @ [backslash] @ ''ref{'' @ ''y'') None
     = Inl MathNotTerminated"
proof -
  have l: "internalMath_loop leafParser [] (initial ''$'')
     = Inr \<lparr>st_text = ''$'', st_mml = [], st_i = 1, st_k = 1, st_match = ''$'', st_braces = 0\<rparr>"
    by (simp add: internalMath_loop.simps initial_def step_def charAt_def pushText_def Let_def)
  show ?thesis
    using internalMath_unterminated_island [where parse = leafParser and font = None
        and s = "''$''" and level = None and pre = "''x''" and body = "''y''"
        and s' = "\<lparr>st_text = ''$'', st_mml = [], st_i = 1, st_k = 1, st_match = ''$'',
          st_braces = 0\<rparr>"]
    by (simp add: l fontDef_def inert_def isTrigger_def backslash_def)
qed

text \<open>
  Claim C3.  In the plain mode, a backslash followed by one of \<open>$\<close>, \<open>{\<close>, \<open>}\<close> and the
  backslash is removed from the text, the character behind it is skipped by the scan
  and so stays in the text as it is, and the mode, the blocks and the start of the block
  do not change.  A text \<open>pre \c post\<close> without further trigger characters therefore
  gives the single text block of \<open>pre c post\<close>; for \<open>a \$ b\<close> it is the text \<open>a $ b\<close>.
\<close>

theorem internalMath_literal_escape:
  "(st_i s + 1 < length (st_text s) \<and> st_text s ! st_i s = backslash
      \<and> isTrigger (st_text s ! (st_i s + 1)) \<and> st_match s = [] \<longrightarrow>
    step parse def s
      = Inr (s\<lparr>st_text := take (st_i s) (st_text s) @ drop (st_i s + 1) (st_text s),
               st_i := st_i s + 1\<rparr>))
   \<and> (inert pre \<and> inert post \<and> isTrigger c \<longrightarrow>
    segments parse font (pre @ [backslash, c] @ post)
      = Inr [internalText (pre @ [c] @ post) (fontDef font)])
   \<and> internalMath parse font (''a '' @ [backslash] @ ''$ b'') None
      = Inr [createNode ''mtext'' [] (fontDef font) (Some (createText ''a $ b''))]"
proof -
  have 1: "st_i s + 1 < length (st_text s) \<and> st_text s ! st_i s = backslash
      \<and> isTrigger (st_text s ! (st_i s + 1)) \<and> st_match s = [] \<longrightarrow>
    step parse def s
      = Inr (s\<lparr>st_text := take (st_i s) (st_text s) @ drop (st_i s + 1) (st_text s),
               st_i := st_i s + 1\<rparr>)"
    using step_strip [of s parse def] by blast
  have 2: "inert pre \<and> inert post \<and> isTrigger c \<longrightarrow>
    segments parse font (pre @ [backslash, c] @ post)
      = Inr [internalText (pre @ [c] @ post) (fontDef font)]" for pre post c
    using segments_escape [of pre post c parse font] by blast
  have "segments parse font (''a '' @ [backslash, CHR ''$''] @ '' b'')
      = Inr [internalText (''a '' @ [CHR ''$''] @ '' b'') (fontDef font)]"
    using 2 [of "''a ''" "'' b''" "CHR ''$''"]
    by (simp add: inert_def isTrigger_def backslash_def)
  then have 3: "internalMath parse font (''a '' @ [backslash] @ ''$ b'') None
      = Inr [createNode ''mtext'' [] (fontDef font) (Some (createText ''a $ b''))]"
    by (simp add: internalMath_def internalText_def replaceLeading_def replaceTrailing_def
        isSpace_def)
  show ?thesis
    by (intro conjI 1 2 3)
qed

theorem internalMath_literal_escape_witness:
  "step leafParser []
     \<lparr>st_text = [backslash, CHR ''{''], st_mml = [], st_i = 0, st_k = 0, st_match = [],
      st_braces = 0\<rparr>
     = Inr \<lparr>st_text = ''{'', st_mml = [], st_i = 1, st_k = 0, st_match = [], st_braces = 0\<rparr>
   \<and> segments leafParser None (''x'' @ [backslash, CHR ''}''] @ ''y'')
     = Inr [createNode ''mtext'' [] [] (Some (createText ''x}y''))]"
  using internalMath_literal_escape [where parse = leafParser and font = None and def = "[]"
      and s = "\<lparr>st_text = [backslash, CHR ''{''], st_mml = [], st_i = 0, st_k = 0,
        st_match = [], st_braces = 0\<rparr>"
      and pre = "''x''" and post = "''y''" and c = "CHR ''}''"]
  by (simp add: fontDef_def inert_def isTrigger_def backslash_def internalText_def
      replaceLeading_def replaceTrailing_def isSpace_def)

text \<open>
  Claim C4, as stated, fails: the empty text has no trigger character and gives no
  block at all, and the text \<open> a\<close> gives a block whose content starts with a no-break
  space, not with the space of the input.
\<close>

theorem internalMath_plain_text_counterexample:
  "\<not> hasTrigger [] \<and> internalMath leafParser None [] None = Inr []
   \<and> \<not> hasTrigger '' a''
   \<and> internalMath leafParser None '' a'' None
     = Inr [createNode ''mtext'' [] [] (Some (createText [NBSP, CHR ''a'']))]
   \<and> [NBSP, CHR ''a''] \<noteq> '' a''"
  by (simp add: internalMath_def segments_def scanText_def pushText_def initial_def slice_def
      triggerAt_def isTrigger_def backslash_def refMatch_def matchesTrigger_def fontDef_def
      internalText_def replaceLeading_def replaceTrailing_def isSpace_def NBSP_def)

text \<open>
  Claim C4, amended.  A text has no trigger character exactly when the expression at
  the start of \<open>internalMath\<close> does not match it.  For such a text that is not empty,
  \<open>internalMath\<close> without a level returns exactly one text block, whose content is the
  text with the run of white space at its start and the run at its end each replaced by
  one no-break space: for white space \<open>ws1\<close> and \<open>ws2\<close> around a text \<open>core\<close> that neither
  starts nor ends with white space, the content is \<open>core\<close> with one no-break space before
  it if \<open>ws1\<close> is not empty and one behind it if \<open>ws2\<close> is not empty, however long \<open>ws1\<close>
  and \<open>ws2\<close> are, and a text of white space only gives one no-break space.  The content
  is the text itself when it neither starts nor ends with white space.  The empty text
  gives no block.  With a level, the blocks are wrapped in one \<^verbatim>\<open>mstyle\<close>.
\<close>

theorem internalMath_plain_text:
  "hasTrigger s = (\<not> inert s)
   \<and> (\<not> hasTrigger s \<and> s \<noteq> [] \<longrightarrow>
    internalMath parse font s None
      = Inr [createNode ''mtext'' [] (fontDef font)
               (Some (createText (replaceTrailing (replaceLeading s))))])
   \<and> (\<not> hasTrigger s \<and> s \<noteq> [] \<and> \<not> isSpace (hd s) \<and> \<not> isSpace (last s) \<longrightarrow>
    internalMath parse font s None
      = Inr [createNode ''mtext'' [] (fontDef font) (Some (createText s))])
   \<and> (\<not> hasTrigger core \<and> list_all isSpace ws1 \<and> list_all isSpace ws2
      \<and> core \<noteq> [] \<and> \<not> isSpace (hd core) \<and> \<not> isSpace (last core) \<longrightarrow>
    internalMath parse font (ws1 @ core @ ws2) None
      = Inr [createNode ''mtext'' [] (fontDef font)
               (Some (createText ((if ws1 = [] then [] else [NBSP]) @ core
                                  @ (if ws2 = [] then [] else [NBSP]))))])
   \<and> (list_all isSpace ws \<and> ws \<noteq> [] \<longrightarrow>
    internalMath parse font ws None
      = Inr [createNode ''mtext'' [] (fontDef font) (Some (createText [NBSP]))])
   \<and> internalMath parse font [] None = Inr []
   \<and> (\<not> hasTrigger s \<longrightarrow>
    internalMath parse font s (Some l)
      = Inr [createNode ''mstyle'' (textBlock s (fontDef font))
               [(''displaystyle'', ABool False), (''scriptlevel'', l)] None])"
proof -
  have 1: "hasTrigger s = (\<not> inert s)"
    by (rule hasTrigger_inert)
  have 2: "\<not> hasTrigger s \<and> s \<noteq> [] \<longrightarrow>
    internalMath parse font s None
      = Inr [createNode ''mtext'' [] (fontDef font)
               (Some (createText (replaceTrailing (replaceLeading s))))]" for s
    by (simp add: internalMath_def segments_inert textBlock_def internalText_def)
  have 3: "\<not> hasTrigger s \<and> s \<noteq> [] \<and> \<not> isSpace (hd s) \<and> \<not> isSpace (last s) \<longrightarrow>
    internalMath parse font s None
      = Inr [createNode ''mtext'' [] (fontDef font) (Some (createText s))]"
    using 2 [of s] by (simp add: replace_no_space)
  have 4: "\<not> hasTrigger core \<and> list_all isSpace ws1 \<and> list_all isSpace ws2
      \<and> core \<noteq> [] \<and> \<not> isSpace (hd core) \<and> \<not> isSpace (last core) \<longrightarrow>
    internalMath parse font (ws1 @ core @ ws2) None
      = Inr [createNode ''mtext'' [] (fontDef font)
               (Some (createText ((if ws1 = [] then [] else [NBSP]) @ core
                                  @ (if ws2 = [] then [] else [NBSP]))))]"
  proof (intro impI, elim conjE)
    assume a: "\<not> hasTrigger core" "list_all isSpace ws1" "list_all isSpace ws2"
      "core \<noteq> []" "\<not> isSpace (hd core)" "\<not> isSpace (last core)"
    have "inert (ws1 @ core @ ws2)"
      using a(1) spaces_inert [OF a(2)] spaces_inert [OF a(3)]
      by (simp add: hasTrigger_inert inert_def)
    then have "\<not> hasTrigger (ws1 @ core @ ws2)"
      by (simp add: hasTrigger_inert)
    then show "internalMath parse font (ws1 @ core @ ws2) None
      = Inr [createNode ''mtext'' [] (fontDef font)
               (Some (createText ((if ws1 = [] then [] else [NBSP]) @ core
                                  @ (if ws2 = [] then [] else [NBSP]))))]"
      using 2 [of "ws1 @ core @ ws2"] a(4) replace_runs [OF a(2,3,4,5,6)] by simp
  qed
  have 5: "list_all isSpace ws \<and> ws \<noteq> [] \<longrightarrow>
    internalMath parse font ws None
      = Inr [createNode ''mtext'' [] (fontDef font) (Some (createText [NBSP]))]"
    using 2 [of ws] spaces_inert [of ws] replace_spaces [of ws] by simp
  have 6: "internalMath parse font [] None = Inr []"
    by (simp add: internalMath_def segments_inert textBlock_def)
  have 7: "\<not> hasTrigger s \<longrightarrow>
    internalMath parse font s (Some l)
      = Inr [createNode ''mstyle'' (textBlock s (fontDef font))
               [(''displaystyle'', ABool False), (''scriptlevel'', l)] None]"
    by (simp add: internalMath_def segments_inert)
  show ?thesis
    by (intro conjI 1 2 3 4 5 6 7)
qed

theorem internalMath_plain_text_witness:
  "internalMath leafParser None '' a b '' None
     = Inr [createNode ''mtext'' [] [] (Some (createText ([NBSP] @ ''a b'' @ [NBSP])))]
   \<and> internalMath leafParser None ''   a b  '' None
     = Inr [createNode ''mtext'' [] [] (Some (createText ([NBSP] @ ''a b'' @ [NBSP])))]
   \<and> internalMath leafParser None ''   '' None
     = Inr [createNode ''mtext'' [] [] (Some (createText [NBSP]))]
   \<and> internalMath leafParser (Some ''bold'') ''a b'' None
     = Inr [createNode ''mtext'' [] [(''mathvariant'', AString ''bold'')] (Some (createText ''a b''))]
   \<and> internalMath leafParser None ''a b'' (Some (ANumber 1))
     = Inr [createNode ''mstyle'' [createNode ''mtext'' [] [] (Some (createText ''a b''))]
              [(''displaystyle'', ABool False), (''scriptlevel'', ANumber 1)] None]"
proof -
  show ?thesis
    using internalMath_plain_text [where parse = leafParser and font = None and s = "'' a b ''"
        and l = "ANumber 1" and ?ws1.0 = "''   ''" and core = "''a b''" and ?ws2.0 = "''  ''"
        and ws = "''   ''"]
      internalMath_plain_text [where parse = leafParser and font = "Some ''bold''"
        and s = "''a b''" and l = "ANumber 1" and ?ws1.0 = "''   ''" and core = "''a b''"
        and ?ws2.0 = "''  ''" and ws = "''   ''"]
      internalMath_plain_text [where parse = leafParser and font = None and s = "''a b''"
        and l = "ANumber 1" and ?ws1.0 = "''   ''" and core = "''a b''" and ?ws2.0 = "''  ''"
        and ws = "''   ''"]
    by (simp add: triggerAt_Cons isTrigger_def backslash_def inert_def fontDef_def
        replaceLeading_def replaceTrailing_def isSpace_def textBlock_def internalText_def)
qed

section \<open>Properties of the number conversions\<close>

subsection \<open>Rounding to a double\<close>

lemma halvings_numeral:
  "halvings (numeral n) a = (if a < 2 then 0 else 1 + halvings (pred_numeral n) (a / 2))"
  by (simp add: numeral_eq_Suc)

lemma doublings_numeral:
  "doublings (numeral n) a = (if 1 \<le> a then 0 else doublings (pred_numeral n) (a * 2) - 1)"
  by (simp add: numeral_eq_Suc)

lemma numberValue_eval:
  assumes "x \<noteq> 0" "exponentOf \<bar>x\<bar> = e" "- 1022 \<le> e" "pow2 (e - 52) = q"
    and "roundHalfEven (\<bar>x\<bar> / q) = m" "of_int m * q < pow2 1024"
  shows "numberValue x = Finite (if 0 < x then of_int m * q else - (of_int m * q))"
proof -
  have e: "max (exponentOf \<bar>x\<bar>) (- 1022) = e"
    using assms(2,3) by simp
  have n: "\<not> pow2 1024 \<le> of_int m * q"
    using assms(6) by simp
  show ?thesis
    unfolding numberValue_def Let_def e assms(4) assms(5)
    using assms(1) n by (simp only: if_False)
qed

lemma roundHalfEven_eval:
  assumes "of_int m - 1 / 2 < y" "y < of_int m + 1 / 2"
  shows "roundHalfEven y = m"
proof (cases "of_int m \<le> y")
  case True
  then have f: "\<lfloor>y\<rfloor> = m"
    using assms(2) by (intro floor_unique) auto
  show ?thesis
    using assms(2) by (simp add: roundHalfEven_def Let_def f)
next
  case False
  then have f: "\<lfloor>y\<rfloor> = m - 1"
    using assms(1) by (intro floor_unique) auto
  show ?thesis
    using assms(1) False by (simp add: roundHalfEven_def Let_def f)
qed

lemma numberValue_positive:
  assumes "0 < x" "exponentOf x = e" "- 1022 \<le> e" "pow2 (e - 52) = q"
    and "of_int m - 1 / 2 < x / q" "x / q < of_int m + 1 / 2" "of_int m * q < pow2 1024"
  shows "numberValue x = Finite (of_int m * q)"
proof -
  have "roundHalfEven (\<bar>x\<bar> / q) = m"
    using assms(1,5,6) by (intro roundHalfEven_eval) simp_all
  then show ?thesis
    using numberValue_eval [of x e q m] assms by simp
qed

lemma nv_2: "numberValue 2 = Finite 2"
  using numberValue_positive [of 2 1 "1 / 2251799813685248" 4503599627370496]
  by (simp add: exponentOf_def halvings_numeral pow2_def)

lemma nv_1: "numberValue 1 = Finite 1"
  using numberValue_positive [of 1 0 "1 / 4503599627370496" 4503599627370496]
  by (simp add: exponentOf_def halvings_numeral pow2_def)

lemma nv_72: "numberValue (72 / 10) = Finite (8106479329266893 / 1125899906842624)"
  using numberValue_positive [of "72 / 10" 2 "1 / 1125899906842624" 8106479329266893]
  by (simp add: exponentOf_def halvings_numeral pow2_def)

lemma nv_72': "numberValue (8106479329266893 / 1125899906842624) = Finite (8106479329266893 / 1125899906842624)"
  using numberValue_positive [of "8106479329266893 / 1125899906842624" 2 "1 / 1125899906842624" 8106479329266893]
  by (simp add: exponentOf_def halvings_numeral pow2_def)

lemma nv_02: "numberValue (2 / 10) = Finite (3602879701896397 / 18014398509481984)"
  using numberValue_positive [of "2 / 10" "- 3" "1 / 36028797018963968" 7205759403792794]
  by (simp add: exponentOf_def doublings_numeral pow2_def)

lemma nv_00006: "numberValue (6 / 10000) = Finite (5534023222112865 / 9223372036854775808)"
  using numberValue_positive [of "6 / 10000" "- 11" "1 / 9223372036854775808" 5534023222112865]
  by (simp add: exponentOf_def doublings_numeral pow2_def)

lemma nv_000059: "numberValue (59 / 100000) = Finite (2720894750872159 / 4611686018427387904)"
  using numberValue_positive [of "59 / 100000" "- 11" "1 / 9223372036854775808" 5441789501744318]
  by (simp add: exponentOf_def doublings_numeral pow2_def)

lemma nv_125: "numberValue (125 / 100) = Finite (5 / 4)"
  using numberValue_positive [of "125 / 100" 0 "1 / 4503599627370496" 5629499534213120]
  by (simp add: exponentOf_def halvings_numeral pow2_def)

subsection \<open>The rendering of \<open>Em\<close>\<close>

lemma digitChar_cases:
  "digitChar d \<in> set ''0123456789'' \<and> (digitChar d = CHR ''0'') = (d mod 10 = 0)"
proof -
  have "d mod 10 < 10" by simp
  then have "d mod 10 = 0 \<or> d mod 10 = 1 \<or> d mod 10 = 2 \<or> d mod 10 = 3 \<or> d mod 10 = 4
    \<or> d mod 10 = 5 \<or> d mod 10 = 6 \<or> d mod 10 = 7 \<or> d mod 10 = 8 \<or> d mod 10 = 9"
    by arith
  then show ?thesis
    by (elim disjE) (simp_all add: digitChar_def)
qed

lemma digitChar_digit: "digitChar d \<in> set ''0123456789''"
  by (rule conjunct1 [OF digitChar_cases])

lemma digitChar_zero: "(digitChar d = CHR ''0'') = (d mod 10 = 0)"
  by (rule conjunct2 [OF digitChar_cases])

lemma digitChar_not_point: "digitChar d \<noteq> CHR ''.''"
proof
  assume "digitChar d = CHR ''.''"
  then have "CHR ''.'' \<in> set ''0123456789''"
    using digitChar_digit [of d] by simp
  then show False by simp
qed

lemma stripZeros_decimals:
  "stripZeros (pre @ ''.'' @ [digitChar (n div 100), digitChar (n div 10), digitChar n])
     = pre @ decimals3 n"
  by (simp add: stripZeros_def decimals3_def digitChar_not_point Let_def)

lemma toFixed3_finite:
  assumes "\<bar>x\<bar> < 10 ^ 21"
  shows "toFixed3 (Finite x)
       = ((if x < 0 then ''-'' else []) @ showNat (nat \<lfloor>\<bar>x\<bar> * 1000 + 1 / 2\<rfloor> div 1000)) @ ''.'' @
         [digitChar (nat \<lfloor>\<bar>x\<bar> * 1000 + 1 / 2\<rfloor> div 100),
          digitChar (nat \<lfloor>\<bar>x\<bar> * 1000 + 1 / 2\<rfloor> div 10),
          digitChar (nat \<lfloor>\<bar>x\<bar> * 1000 + 1 / 2\<rfloor>)]"
  using assms by (simp add: toFixed3_def Let_def)

lemma Em_small: "jsLess (jsAbs m) (numberValue (6 / 10000)) \<Longrightarrow> Em m = ''0em''"
  by (simp add: Em_def)

lemma Em_small_finite:
  "\<bar>x\<bar> < 5534023222112865 / 9223372036854775808 \<Longrightarrow> Em (Finite x) = ''0em''"
  unfolding Em_def nv_00006 by (simp add: jsLess_def jsAbs_def)

lemma Em_render:
  assumes "5534023222112865 / 9223372036854775808 \<le> \<bar>x\<bar>" "\<bar>x\<bar> < 10 ^ 21"
  shows "Em (Finite x)
       = (if x < 0 then ''-'' else []) @ showNat (nat \<lfloor>\<bar>x\<bar> * 1000 + 1 / 2\<rfloor> div 1000)
         @ decimals3 (nat \<lfloor>\<bar>x\<bar> * 1000 + 1 / 2\<rfloor>) @ ''em''"
proof -
  have "\<not> jsLess (jsAbs (Finite x)) (numberValue (6 / 10000))"
    unfolding nv_00006 using assms(1) by (simp add: jsLess_def jsAbs_def)
  then have "Em (Finite x) = stripZeros (toFixed3 (Finite x)) @ ''em''"
    by (simp add: Em_def)
  also have "\<dots> = ((if x < 0 then ''-'' else []) @ showNat (nat \<lfloor>\<bar>x\<bar> * 1000 + 1 / 2\<rfloor> div 1000)
         @ decimals3 (nat \<lfloor>\<bar>x\<bar> * 1000 + 1 / 2\<rfloor>)) @ ''em''"
    by (simp only: toFixed3_finite [OF assms(2)] stripZeros_decimals) simp
  finally show ?thesis by simp
qed

lemma Em_examples:
  "Em (numberValue (59 / 100000)) = ''0em''"
  "Em (numberValue 1) = ''1em''"
  "Em (numberValue (125 / 100)) = ''1.25em''"
proof -
  show "Em (numberValue (59 / 100000)) = ''0em''"
    unfolding nv_000059 by (rule Em_small_finite) simp
  have f1: "\<lfloor>2001 / 2::rat\<rfloor> = 1000"
    by (intro floor_unique) simp_all
  have "Em (Finite 1) = ''1em''"
    unfolding Em_render [of 1, simplified] f1
    by (simp add: showNat.simps decimals3_def digitChar_def)
  then show "Em (numberValue 1) = ''1em''"
    by (simp only: nv_1)
  have f2: "\<lfloor>2501 / 2::rat\<rfloor> = 1250"
    by (intro floor_unique) simp_all
  have "Em (Finite (5 / 4)) = ''1.25em''"
    unfolding Em_render [of "5 / 4", simplified] f2
    by (simp add: showNat.simps decimals3_def digitChar_def)
  then show "Em (numberValue (125 / 100)) = ''1.25em''"
    by (simp only: nv_125)
qed

lemma nv_1e21: "numberValue 1000000000000000000000 = Finite 1000000000000000000000"
  using numberValue_positive [of 1000000000000000000000 69 131072 7629394531250000]
  by (simp add: exponentOf_def halvings_numeral pow2_def)

lemma take_filter_head: "P a \<Longrightarrow> take 1 (filter P (a # xs)) = [a]"
  by simp

lemma showNat_1e21: "showNat 1000000000000000000000 = ''1000000000000000000000''"
  by (simp add: showNat.simps digitChar_def)

lemma roundHalfEven_tie:
  assumes "y = of_int m + 1 / 2"
  shows "roundHalfEven y = (if even m then m else m + 1)"
proof -
  have "\<lfloor>y\<rfloor> = m"
    unfolding assms by (rule floor_unique) simp_all
  then show ?thesis
    by (simp add: roundHalfEven_def Let_def assms)
qed

lemma exponentString_first:
  assumes "length (showNat (nat \<lfloor>x\<rfloor>)) = d" "shortestDigits x d (Suc 0) = s # ss"
  shows "exponentString x
       = take 1 (showNat s) @ (if length (showNat s) = 1 then [] else ''.'' @ drop 1 (showNat s))
         @ ''e+'' @ showNat (d - 1)"
proof -
  have u: "[1..<18] = 1 # [2..<18]"
    by (simp add: upt_conv_Cons)
  show ?thesis
    unfolding exponentString_def Let_def assms(1) u
    by (simp add: assms(2) del: upt_Suc)
qed

lemma exponentString_next:
  assumes "length (showNat (nat \<lfloor>x\<rfloor>)) = d" "shortestDigits x d (Suc 0) = []"
    and "shortestDigits x (Suc d) (Suc 0) = s # ss"
  shows "exponentString x
       = take 1 (showNat s) @ (if length (showNat s) = 1 then [] else ''.'' @ drop 1 (showNat s))
         @ ''e+'' @ showNat d"
proof -
  have u: "[1..<18] = 1 # [2..<18]"
    by (simp add: upt_conv_Cons)
  show ?thesis
    unfolding exponentString_def Let_def assms(1) u
    by (simp add: assms(2,3) del: upt_Suc)
qed

lemma showNat_1: "showNat 1 = ''1''"
  by (simp add: showNat.simps digitChar_def)

lemma shortestDigits_1e21:
  "\<exists>ss. shortestDigits 1000000000000000000000 22 (Suc 0) = 1 # ss"
  unfolding shortestDigits_def Let_def
  by (simp add: nv_1e21)

lemma exponentString_1e21: "exponentString 1000000000000000000000 = ''1e+21''"
proof -
  obtain ss where s: "shortestDigits 1000000000000000000000 22 (Suc 0) = 1 # ss"
    using shortestDigits_1e21 by blast
  have n: "length (showNat (nat \<lfloor>1000000000000000000000 :: rat\<rfloor>)) = 22"
    by (simp add: showNat_1e21)
  show ?thesis
    unfolding exponentString_first [OF n s] showNat_1
    by (simp add: showNat.simps digitChar_def)
qed

lemma Em_1e21: "Em (Finite (10 ^ 21)) = ''1e+21em''"
proof -
  have "\<not> jsLess (jsAbs (Finite (10 ^ 21))) (numberValue (6 / 10000))"
    unfolding nv_00006 by (simp add: jsLess_def jsAbs_def)
  then have "Em (Finite (10 ^ 21)) = stripZeros (toFixed3 (Finite (10 ^ 21))) @ ''em''"
    by (simp add: Em_def)
  also have "toFixed3 (Finite (10 ^ 21)) = ''1e+21''"
    by (simp add: toFixed3_def exponentString_1e21)
  finally show ?thesis
    by (simp add: stripZeros_def)
qed

lemma shortestDigits_eval:
  assumes "of_nat s * 10 ^ (n - k) \<le> x" "x < (of_nat s + 1) * 10 ^ (n - k)"
  shows "shortestDigits x n k
       = filter (\<lambda>c. 10 ^ (k - 1) \<le> c \<and> c < 10 ^ k
                      \<and> numberValue (of_nat (c * 10 ^ (n - k))) = Finite x)
           (if \<bar>of_nat (s * 10 ^ (n - k)) - x\<bar> < \<bar>of_nat ((s + 1) * 10 ^ (n - k)) - x\<bar>
               \<or> (\<bar>of_nat (s * 10 ^ (n - k)) - x\<bar> = \<bar>of_nat ((s + 1) * 10 ^ (n - k)) - x\<bar> \<and> even s)
            then [s, s + 1] else [s + 1, s])"
proof -
  have p: "(0::rat) < 10 ^ (n - k)"
    by simp
  have "\<lfloor>x / of_nat (10 ^ (n - k))\<rfloor> = int s"
  proof (rule floor_unique)
    show "of_int (int s) \<le> x / of_nat (10 ^ (n - k))"
      using assms(1) p by (simp add: le_divide_eq)
    show "x / of_nat (10 ^ (n - k)) < of_int (int s) + 1"
      using assms(2) p by (simp add: divide_less_eq)
  qed
  then have "nat \<lfloor>x / of_nat (10 ^ (n - k))\<rfloor> = s"
    by simp
  then show ?thesis
    by (simp add: shortestDigits_def Let_def)
qed

lemma nv_1e23: "numberValue 100000000000000000000000 = Finite 99999999999999991611392"
proof -
  have r: "roundHalfEven (11920928955078125 / 2) = 5960464477539062"
    using roundHalfEven_tie [of "11920928955078125 / 2" 5960464477539062] by simp
  show ?thesis
    using numberValue_eval [of 100000000000000000000000 76 16777216 5960464477539062] r
    by (simp add: exponentOf_def halvings_numeral pow2_def)
qed

lemma nv_9e22: "numberValue 90000000000000000000000 = Finite 89999999999999995805696"
  using numberValue_positive [of 90000000000000000000000 76 16777216 5364418029785156]
  by (simp add: exponentOf_def halvings_numeral pow2_def)

lemma showNat_x23: "showNat 99999999999999991611392 = ''99999999999999991611392''"
  by (simp add: showNat.simps digitChar_def)

lemma exponentString_1e23: "exponentString 99999999999999991611392 = ''1e+23''"
proof -
  have n: "length (showNat (nat \<lfloor>99999999999999991611392 :: rat\<rfloor>)) = 23"
    by (simp add: showNat_x23)
  have a: "shortestDigits 99999999999999991611392 23 (Suc 0) = []"
    using shortestDigits_eval [of 9 23 "Suc 0" 99999999999999991611392]
    by (simp add: nv_9e22)
  have "\<exists>ss. shortestDigits 99999999999999991611392 (Suc 23) (Suc 0) = 1 # ss"
    using shortestDigits_eval [of 0 "Suc 23" "Suc 0" 99999999999999991611392]
    by (simp add: nv_1e23)
  then obtain ss where b: "shortestDigits 99999999999999991611392 (Suc 23) (Suc 0) = 1 # ss"
    by blast
  show ?thesis
    unfolding exponentString_next [OF n a b] showNat_1
    by (simp add: showNat.simps digitChar_def)
qed

lemma Em_1e23: "Em (numberValue (10 ^ 23)) = ''1e+23em''"
proof -
  have v: "numberValue (10 ^ 23) = Finite 99999999999999991611392"
    using nv_1e23 by simp
  have "\<not> jsLess (jsAbs (Finite 99999999999999991611392)) (numberValue (6 / 10000))"
    unfolding nv_00006 by (simp add: jsLess_def jsAbs_def)
  then have "Em (Finite 99999999999999991611392)
      = stripZeros (toFixed3 (Finite 99999999999999991611392)) @ ''em''"
    by (simp add: Em_def)
  also have "toFixed3 (Finite 99999999999999991611392) = ''1e+23''"
    by (simp add: toFixed3_def exponentString_1e23)
  finally show ?thesis
    unfolding v by (simp add: stripZeros_def)
qed

lemma nv_1e30:
  "numberValue 1000000000000000000000000000000 = Finite 1000000000000000019884624838656"
  using numberValue_positive [of 1000000000000000000000000000000 99 140737488355328 7105427357601002]
  by (simp add: exponentOf_def halvings_numeral pow2_def)

lemma showNat_x30:
  "showNat 1000000000000000019884624838656 = ''1000000000000000019884624838656''"
  by (simp add: showNat.simps digitChar_def)

lemma exponentString_1e30: "exponentString 1000000000000000019884624838656 = ''1e+30''"
proof -
  have n: "length (showNat (nat \<lfloor>1000000000000000019884624838656 :: rat\<rfloor>)) = 31"
    by (simp add: showNat_x30)
  have "\<exists>ss. shortestDigits 1000000000000000019884624838656 31 (Suc 0) = 1 # ss"
    using shortestDigits_eval [of 1 31 "Suc 0" 1000000000000000019884624838656]
    by (simp add: nv_1e30)
  then obtain ss where a: "shortestDigits 1000000000000000019884624838656 31 (Suc 0) = 1 # ss"
    by blast
  show ?thesis
    unfolding exponentString_first [OF n a] showNat_1
    by (simp add: showNat.simps digitChar_def)
qed

lemma Em_1e30: "Em (numberValue (10 ^ 30)) = ''1e+3em''"
proof -
  have v: "numberValue (10 ^ 30) = Finite 1000000000000000019884624838656"
    using nv_1e30 by simp
  have "\<not> jsLess (jsAbs (Finite 1000000000000000019884624838656)) (numberValue (6 / 10000))"
    unfolding nv_00006 by (simp add: jsLess_def jsAbs_def)
  then have "Em (Finite 1000000000000000019884624838656)
      = stripZeros (toFixed3 (Finite 1000000000000000019884624838656)) @ ''em''"
    by (simp add: Em_def)
  also have "toFixed3 (Finite 1000000000000000019884624838656) = ''1e+30''"
    by (simp add: toFixed3_def exponentString_1e30)
  finally show ?thesis
    unfolding v by (simp add: stripZeros_def)
qed

subsection \<open>\<open>parseFloat\<close> on the numerals of a dimension\<close>

lemma digits_takeWhile_all: "list_all isDigit ds \<Longrightarrow> takeWhile isDigit ds = ds"
  by (simp add: list_all_iff)

lemma digits_dropWhile_all: "list_all isDigit ds \<Longrightarrow> dropWhile isDigit ds = []"
  by (simp add: list_all_iff)

lemma point_not_digit: "\<not> isDigit (CHR ''.'')"
  by (simp add: isDigit_def)

lemma parseFloat_unsigned:
  assumes "list_all isDigit ip" "list_all isDigit fp" "ip \<noteq> [] \<or> fp \<noteq> []"
    and "fr = [] \<and> fp = [] \<or> fr = CHR ''.'' # fp"
    and "u = ip @ fr" "t = sg @ u" "isSignPart sg"
  shows "parseFloat t
       = numberValue ((if sg = ''-'' then - 1 else 1) * of_nat (digitsValue (ip @ fp)) * pow10 (- int (length fp)))"
proof -
  have nd: "noDigitAhead fr"
    using assms(4) point_not_digit by (auto simp: noDigitAhead_def)
  have ip: "takeWhile isDigit u = ip" "dropWhile isDigit u = fr"
    using assms(1) nd by (simp_all add: assms(5) takeWhile_digits dropWhile_digits)
  have u0: "u \<noteq> []" "isDigit (hd u) \<or> hd u = CHR ''.''"
    using assms(1,3,4) by (cases ip; auto simp: assms(5))+
  have hu: "\<not> isSpace (hd u)" "hd u \<noteq> CHR ''-''" "hd u \<noteq> CHR ''+''" "hd u \<noteq> CHR ''I''"
    using u0(2) by (auto simp: isDigit_def isSpace_def)
  have t: "dropWhile isSpace t = t"
    using assms(7) u0(1) hu(1) by (cases u) (auto simp: assms(6) isSignPart_def isSpace_def)
  have neg: "(take 1 t = ''-'') = (sg = ''-'')"
    using assms(7) u0(1) hu(2) by (cases u) (auto simp: assms(6) isSignPart_def)
  have u: "(if take 1 t = ''-'' \<or> take 1 t = ''+'' then drop 1 t else t) = u"
    using assms(7) u0(1) hu(2,3) by (cases u) (auto simp: assms(6) isSignPart_def)
  have inf: "take 8 u \<noteq> ''Infinity''"
    using u0(1) hu(4) by (cases u) auto
  have fp: "(if take 1 fr = ''.'' then takeWhile isDigit (drop 1 fr) else []) = fp"
    "(if take 1 fr = ''.'' then dropWhile isDigit (drop 1 fr) else fr) = []"
    using assms(2,4) by (auto simp: list_all_iff)
  have ne: "\<not> (ip = [] \<and> fp = [])"
    using assms(3) by simp
  have ex: "exponentPart [] = 0"
    by (simp add: exponentPart_def)
  have "parseFloat t
      = (if take 8 u = ''Infinity'' then infinity (sg = ''-'')
         else if ip = [] \<and> fp = [] then NaN
         else numberValue ((if sg = ''-'' then - 1 else 1) * of_nat (digitsValue (ip @ fp))
                           * pow10 (exponentPart [] - int (length fp))))"
    apply (simp only: parseFloat_def Let_def t)
    apply (simp only: u)
    apply (simp only: neg ip)
    apply (simp only: fp)
    done
  then show ?thesis
    using inf ne by (simp add: ex)
qed

lemma parseFloat_integer:
  assumes "isSignPart sg" "ip \<noteq> []" "list_all isDigit ip"
  shows "parseFloat (sg @ ip) = numberValue ((if sg = ''-'' then - 1 else 1) * of_nat (digitsValue ip))"
  using parseFloat_unsigned [where ip = ip and fp = "[]" and fr = "[]" and u = ip
      and t = "sg @ ip" and sg = sg] assms
  by (simp add: pow10_def)

lemma parseFloat_decimal:
  assumes "isSignPart sg" "list_all isDigit ip" "list_all isDigit fp" "ip \<noteq> [] \<or> fp \<noteq> []"
  shows "parseFloat (sg @ ip @ CHR ''.'' # fp)
       = numberValue ((if sg = ''-'' then - 1 else 1) * of_nat (digitsValue (ip @ fp))
                      * pow10 (- int (length fp)))"
  using parseFloat_unsigned [where ip = ip and fp = fp and fr = "CHR ''.'' # fp"
      and u = "ip @ CHR ''.'' # fp" and t = "sg @ ip @ CHR ''.'' # fp" and sg = sg] assms
  by simp

subsection \<open>\<open>dimen2em\<close>\<close>

lemma dimenPrefix_ok:
  assumes "list_all isSpace ws1" "list_all isSpace ws2"
    and "isSignPart sg" "n \<noteq> []" "\<not> isSign (hd n)" "\<not> isSpace (hd n)"
    and "\<And>r. noNumberAhead r \<Longrightarrow> matchUnsigned (n @ r) = Some (n, r)"
    and "u \<in> set units"
  shows "dimenPrefix (ws1 @ sg @ n @ ws2 @ u @ r) = Some (sg @ n, u, r)"
proof -
  have ahead: "noNumberAhead (ws2 @ u @ r)"
    using assms(2,8) by (rule noNumberAhead_unit)
  have 1: "skipSpaces (ws1 @ sg @ n @ ws2 @ u @ r) = sg @ n @ ws2 @ u @ r"
    using assms(1,3,4,6) by (rule skipSpaces_signed)
  have 2: "matchNum (sg @ n @ ws2 @ u @ r) = Some (sg @ n, ws2 @ u @ r)"
    using assms(3,4,5) assms(7) [OF ahead] by (rule matchNum_ok)
  have 3: "skipSpaces (ws2 @ u @ r) = u @ r"
    using assms(2,8) by (rule skipSpaces_unit)
  have 4: "matchUnit (u @ r) = Some (u, r)"
    using assms(8) by (rule matchUnit_ok)
  show ?thesis
    by (simp only: dimenPrefix_def 1 2 3 4 option.case prod.case)
qed

lemma numeral_unsigned:
  assumes "ip \<noteq> []" "list_all isDigit ip" "isFractionPart fr" "noNumberAhead r"
  shows "matchUnsigned ((ip @ fr) @ r) = Some (ip @ fr, r)"
proof (cases fr)
  case Nil
  then show ?thesis using matchUnsigned_int [OF assms(1,2,4)] by simp
next
  case (Cons sep fp)
  have "noDigitAhead r"
    using assms(4) by (auto simp: noDigitAhead_def noNumberAhead_def split: list.splits)
  then show ?thesis
    using matchUnsigned_frac [of ip sep fp r] assms(1,2,3) Cons
    by (simp add: isFractionPart_def)
qed

lemma numeral_head:
  assumes "ip \<noteq> []" "list_all isDigit ip"
  shows "ip @ fr \<noteq> [] \<and> \<not> isSign (hd (ip @ fr)) \<and> \<not> isSpace (hd (ip @ fr))"
  using assms digit_not_other by (cases ip) auto

lemma dimenPrefix_numeral:
  assumes "list_all isSpace ws1" "list_all isSpace ws2"
    and "isSignPart sg" "ip \<noteq> []" "list_all isDigit ip" "isFractionPart fr" "u \<in> set units"
  shows "dimenPrefix (ws1 @ sg @ ip @ fr @ ws2 @ u @ r) = Some (sg @ ip @ fr, u, r)"
  using dimenPrefix_ok [of ws1 ws2 sg "ip @ fr" u r] assms
    numeral_head [OF assms(4,5), of fr] numeral_unsigned [OF assms(4,5,6)]
  by simp

lemma dimen2em_no_match: "matchDimen dimen False = (None, None, 0) \<Longrightarrow> dimen2em dimen = Finite 0"
  by (simp add: dimen2em_def)

lemma dimen2em_dimenEnd_None: "dimenEnd dimen = None \<Longrightarrow> dimen2em dimen = Finite 0"
  by (simp add: dimen2em_def matchDimen_def)

lemma dimen2em_dimenPrefix_None: "dimenPrefix dimen = None \<Longrightarrow> dimen2em dimen = Finite 0"
  by (simp add: dimen2em_dimenEnd_None dimenEnd_def)

lemma dimen2em_match:
  assumes "matchDimen dimen False = (Some v, Some u, n)" "v \<noteq> []" "UNIT_CASES u = Some f"
  shows "dimen2em dimen = f (parseFloat v)"
  using assms by (simp add: dimen2em_def magnitude_def)

lemma UNIT_CASES_units: "u \<in> set units \<Longrightarrow> \<exists>f. UNIT_CASES u = Some f"
  by (auto simp: units_def UNIT_CASES_def)

lemma UNIT_CASES_other: "u \<notin> set units \<Longrightarrow> UNIT_CASES u = None"
  by (simp add: units_def UNIT_CASES_def)

lemma UNIT_CASES_table:
  "UNIT_CASES ''em'' = Some (\<lambda>m. m)"
  "UNIT_CASES ''ex'' = Some (\<lambda>m. jsMul m (numberValue (43 / 100)))"
  "UNIT_CASES ''pt'' = Some (\<lambda>m. jsDiv m (Finite 10))"
  "UNIT_CASES ''pc'' = Some (\<lambda>m. jsMul m (numberValue (12 / 10)))"
  "UNIT_CASES ''px'' = Some (\<lambda>m. jsDiv (jsMul m (numberValue (72 / 10))) (Finite 72))"
  "UNIT_CASES ''in'' = Some (\<lambda>m. jsMul m (numberValue (72 / 10)))"
  "UNIT_CASES ''cm'' = Some (\<lambda>m. jsDiv (jsMul m (numberValue (72 / 10))) (numberValue (254 / 100)))"
  "UNIT_CASES ''mm'' = Some (\<lambda>m. jsDiv (jsMul m (numberValue (72 / 10))) (numberValue (254 / 10)))"
  "UNIT_CASES ''mu'' = Some (\<lambda>m. jsDiv m (Finite 18))"
  by (simp_all add: UNIT_CASES_def emPerInch_def pxPerInch_def)

lemma dimen2em_numeral:
  assumes "list_all isSpace ws1" "list_all isSpace ws2" "list_all isSpace ws3"
    and "isSignPart sg" "ip \<noteq> []" "list_all isDigit ip" "isFractionPart fr" "u \<in> set units"
    and "UNIT_CASES u = Some f"
  shows "dimen2em (ws1 @ sg @ ip @ fr @ ws2 @ u @ ws3) = f (parseFloat (sg @ ip @ replaceComma fr))"
  using matchDimen_numeral [OF assms(1-8)] assms(5,9)
  by (intro dimen2em_match [where u = u]) auto

lemma dimen2em_leading_separator:
  assumes "list_all isSpace ws1" "list_all isSpace ws2" "list_all isSpace ws3"
    and "isSignPart sg" "isSeparator sep" "fp \<noteq> []" "list_all isDigit fp" "u \<in> set units"
    and "UNIT_CASES u = Some f"
  shows "dimen2em (ws1 @ sg @ sep # fp @ ws2 @ u @ ws3) = f (parseFloat (sg @ CHR ''.'' # fp))"
  using matchDimen_leading_separator [OF assms(1-8)] assms(9)
  by (intro dimen2em_match [where u = u]) auto

lemma dimen2em_trailing:
  assumes "list_all isSpace ws1" "list_all isSpace ws2"
    and "isSignPart sg" "ip \<noteq> []" "list_all isDigit ip" "isFractionPart fr" "u \<in> set units"
    and "skipSpaces r \<noteq> []"
  shows "dimen2em (ws1 @ sg @ ip @ fr @ ws2 @ u @ r) = Finite 0"
  using dimenPrefix_numeral [OF assms(1-7), of r] assms(8)
  by (intro dimen2em_dimenEnd_None) (simp add: dimenEnd_def)

lemma dimen2em_no_numeral:
  assumes "list_all isSpace ws" "isSignPart sg" "u \<in> set units"
  shows "dimen2em (ws @ sg @ u @ r) = Finite 0"
proof -
  obtain a u' where u: "u = a # u'" "isLetter a"
    using unit_hd [OF assms(3)] by (cases u) auto
  have a: "\<not> isSpace a" "\<not> isDigit a" "\<not> isSeparator a" "\<not> isSign a"
    using letter_not_other [OF u(2)] u(2) by (auto simp: isSign_def isLetter_def)
  have 1: "skipSpaces (ws @ sg @ u @ r) = sg @ u @ r"
    using skipSpaces_signed [OF assms(1,2), of u r] u a by simp
  have 2: "matchSign (sg @ u @ r) = (sg, u @ r)"
    using matchSign_ok [OF assms(2), of "u @ r"] u a by simp
  have 3: "matchUnsigned (u @ r) = None"
    using u a by (simp add: matchUnsigned_def)
  show ?thesis
    by (intro dimen2em_dimenPrefix_None) (simp add: dimenPrefix_def matchNum_def 1 2 3)
qed

lemma dimen2em_no_unit:
  assumes "list_all isSpace ws1" "list_all isSpace ws2"
    and "isSignPart sg" "ip \<noteq> []" "list_all isDigit ip" "isFractionPart fr"
    and "noNumberAhead (ws2 @ x)" "x = [] \<or> \<not> isSpace (hd x)" "take 2 x \<notin> set units"
  shows "dimen2em (ws1 @ sg @ ip @ fr @ ws2 @ x) = Finite 0"
proof -
  let ?n = "ip @ fr"
  note h = numeral_head [OF assms(4,5), of fr]
  have 1: "skipSpaces (ws1 @ sg @ ?n @ ws2 @ x) = sg @ ?n @ ws2 @ x"
    using assms(1,3) h by (intro skipSpaces_signed) auto
  have 2: "matchNum (sg @ ?n @ ws2 @ x) = Some (sg @ ?n, ws2 @ x)"
    using assms(3) h numeral_unsigned [OF assms(4,5,6,7)] by (intro matchNum_ok) auto
  have 3: "skipSpaces (ws2 @ x) = x"
    using assms(2,8) skipSpaces_append [OF assms(2), of x]
    by (cases x) (simp_all add: skipSpaces_def)
  have 4: "matchUnit x = None"
    using assms(9) by (simp add: matchUnit_def)
  have "dimenPrefix (ws1 @ sg @ ?n @ ws2 @ x) = None"
    by (simp only: dimenPrefix_def 1 2 3 4 option.case prod.case)
  then show ?thesis
    using dimen2em_dimenPrefix_None [of "ws1 @ sg @ ?n @ ws2 @ x"] by simp
qed

lemma dimen2em_total:
  "dimen2em dimen = Finite 0
   \<or> (\<exists>v u f. matchDimen dimen False = (Some v, Some u, length dimen)
              \<and> UNIT_CASES u = Some f \<and> dimen2em dimen = f (magnitude (Some v)))"
proof -
  from matchDimen_total [of dimen] show ?thesis
  proof
    assume "matchDimen dimen False = (None, None, 0)"
    then show ?thesis by (simp add: dimen2em_no_match)
  next
    assume "\<exists>v u. matchDimen dimen False = (Some v, Some u, length dimen) \<and> u \<in> set units"
    then obtain v u where m: "matchDimen dimen False = (Some v, Some u, length dimen)" "u \<in> set units"
      by blast
    obtain f where f: "UNIT_CASES u = Some f"
      using UNIT_CASES_units [OF m(2)] by blast
    have "dimen2em dimen = f (magnitude (Some v))"
      using m(1) f by (simp add: dimen2em_def)
    then show ?thesis using m(1) f by blast
  qed
qed

lemma digitsValue_2: "digitsValue ''2'' = 2"
  by (simp add: digitsValue_def digitVal_def)

lemma parseFloat_digit:
  assumes "isDigit d"
  shows "parseFloat [d] = numberValue (of_nat (digitVal d))"
  using parseFloat_unsigned [where ip = "[d]" and fp = "[]" and fr = "[]" and u = "[d]"
      and t = "[d]" and sg = "[]"] assms
  by (simp add: isSignPart_def digitsValue_def pow10_def)

lemma nv_3: "numberValue 3 = Finite 3"
  using numberValue_positive [of 3 1 "1 / 2251799813685248" 6755399441055744]
  by (simp add: exponentOf_def halvings_numeral pow2_def)

lemma nv_01: "numberValue (1 / 10) = Finite (3602879701896397 / 36028797018963968)"
  using numberValue_positive [of "1 / 10" "- 4" "1 / 72057594037927936" 7205759403792794]
  by (simp add: exponentOf_def doublings_numeral pow2_def)

lemma nv_03: "numberValue (3 / 10) = Finite (5404319552844595 / 18014398509481984)"
  using numberValue_positive [of "3 / 10" "- 2" "1 / 18014398509481984" 5404319552844595]
  by (simp add: exponentOf_def doublings_numeral pow2_def)

lemma nv_3_01:
  "numberValue (10808639105689191 / 36028797018963968)
   = Finite (1351079888211149 / 4503599627370496)"
proof -
  have r: "roundHalfEven (10808639105689191 / 2) = 5404319552844596"
    using roundHalfEven_tie [of "10808639105689191 / 2" 5404319552844595] by simp
  show ?thesis
    using numberValue_eval [of "10808639105689191 / 36028797018963968" "- 2"
        "1 / 18014398509481984" 5404319552844596] r
    by (simp add: exponentOf_def doublings_numeral pow2_def)
qed

lemma dimen2em_2pt: "dimen2em ''2pt'' = numberValue (2 / 10)"
proof -
  have "dimen2em ''2pt'' = jsDiv (parseFloat ''2'') (Finite 10)"
    using dimen2em_numeral [where ?ws1.0 = "[]" and ?ws2.0 = "[]" and ?ws3.0 = "[]" and sg = "[]"
        and ip = "''2''" and fr = "[]" and u = "''pt''", OF _ _ _ _ _ _ _ _ UNIT_CASES_table(3)]
    by (simp add: isSignPart_def isFractionPart_def isDigit_def units_def)
  also have "parseFloat ''2'' = Finite 2"
    using parseFloat_digit [of "CHR ''2''"] by (simp add: isDigit_def digitVal_def nv_2)
  finally show ?thesis
    by (simp add: jsDiv_def)
qed

lemma dimen2em_3pt: "dimen2em ''3pt'' = numberValue (3 / 10)"
proof -
  have "dimen2em ''3pt'' = jsDiv (parseFloat ''3'') (Finite 10)"
    using dimen2em_numeral [where ?ws1.0 = "[]" and ?ws2.0 = "[]" and ?ws3.0 = "[]" and sg = "[]"
        and ip = "''3''" and fr = "[]" and u = "''pt''", OF _ _ _ _ _ _ _ _ UNIT_CASES_table(3)]
    by (simp add: isSignPart_def isFractionPart_def isDigit_def units_def)
  also have "parseFloat ''3'' = Finite 3"
    using parseFloat_digit [of "CHR ''3''"] by (simp add: isDigit_def digitVal_def nv_3)
  finally show ?thesis
    by (simp add: jsDiv_def)
qed

lemma dimen2em_1in: "dimen2em ''1in'' = numberValue (72 / 10)"
proof -
  have "dimen2em ''1in'' = jsMul (parseFloat ''1'') (numberValue (72 / 10))"
    using dimen2em_numeral [where ?ws1.0 = "[]" and ?ws2.0 = "[]" and ?ws3.0 = "[]" and sg = "[]"
        and ip = "''1''" and fr = "[]" and u = "''in''", OF _ _ _ _ _ _ _ _ UNIT_CASES_table(6)]
    by (simp add: isSignPart_def isFractionPart_def isDigit_def units_def)
  also have "parseFloat ''1'' = Finite 1"
    using parseFloat_digit [of "CHR ''1''"] by (simp add: isDigit_def digitVal_def nv_1)
  finally show ?thesis
    unfolding nv_72 by (simp add: jsMul_def nv_72')
qed

lemma dimen2em_3xyz: "dimen2em ''3xyz'' = Finite 0"
  using dimen2em_no_unit [where ?ws1.0 = "[]" and ?ws2.0 = "[]" and sg = "[]" and ip = "''3''"
      and fr = "[]" and x = "''xyz''"]
  by (simp add: isSignPart_def isFractionPart_def isDigit_def units_def noNumberAhead_def
      isSeparator_def isSpace_def)

lemma dimen2em_em: "dimen2em ''em'' = Finite 0"
  using dimen2em_no_numeral [where ws = "[]" and sg = "[]" and u = "''em''" and r = "[]"]
  by (simp add: isSignPart_def units_def)

lemma magnitude_default: "magnitude None = Finite 1"
  using parseFloat_digit [of "CHR ''1''"]
  by (simp add: magnitude_def isDigit_def digitVal_def nv_1)

lemma pt_not_tenth: "jsMul (Finite 3) (numberValue (1 / 10)) \<noteq> dimen2em ''3pt''"
  unfolding dimen2em_3pt nv_03 nv_01
  by (simp add: jsMul_def nv_3_01)

section \<open>The claims on dimensions in em\<close>

text \<open>
  Claim C8.  The code does not give a missing numeral the magnitude 1: the expression
  of \<open>matchDimen\<close> needs a numeral, so the texts \<^verbatim>\<open>em\<close> and \<^verbatim>\<open>pt\<close> are not matched, no
  unit is found and the result is 0.  The magnitude of \<^verbatim>\<open>parseFloat(value || '1')\<close> for the
  missing numeral is 1, and with it the function of \<^verbatim>\<open>em\<close> would give 1 and that of \<^verbatim>\<open>pt\<close>
  the double 0.1, which is not 0.
\<close>

theorem dimen2em_missing_numeral:
  "matchDimen ''em'' False = (None, None, 0)
   \<and> magnitude None = Finite 1
   \<and> UNIT_CASES ''em'' = Some (\<lambda>m. m)
   \<and> dimen2em ''em'' = Finite 0
   \<and> dimen2em ''em'' \<noteq> magnitude None
   \<and> matchDimen ''pt'' False = (None, None, 0)
   \<and> UNIT_CASES ''pt'' = Some (\<lambda>m. jsDiv m (Finite 10))
   \<and> dimen2em ''pt'' = Finite 0
   \<and> jsDiv (magnitude None) (Finite 10) = Finite (3602879701896397 / 36028797018963968)
   \<and> dimen2em ''pt'' \<noteq> jsDiv (magnitude None) (Finite 10)"
proof -
  have 1: "matchDimen ''em'' False = (None, None, 0)"
    by code_simp
  have 2: "matchDimen ''pt'' False = (None, None, 0)"
    by code_simp
  have 3: "dimen2em ''pt'' = Finite 0"
    using dimen2em_no_numeral [where ws = "[]" and sg = "[]" and u = "''pt''" and r = "[]"]
    by (simp add: isSignPart_def units_def)
  have 4: "jsDiv (Finite 1) (Finite 10) = Finite (3602879701896397 / 36028797018963968)"
    using nv_01 by (simp add: jsDiv_def)
  show ?thesis
    unfolding dimen2em_em magnitude_default 1 2 3 4
    by (simp add: UNIT_CASES_table)
qed

text \<open>
  The rest of claim C8 on the code.  \<open>dimen2em\<close> matches its input without trailing text
  allowed.  For a dimension literal (sign, digits, fraction part and unit, or a numeral
  that starts with the separator) the result is the function of the unit in
  \<open>UNIT_CASES\<close>, applied to the double that \<open>parseFloat\<close> reads from the numeral: \<open>m\<close>,
  \<open>m * 0.43\<close>, \<open>m / 10\<close>, \<open>m * 1.2\<close>, \<open>m * 7.2 / 72\<close>, \<open>m * 7.2\<close>, \<open>m * 7.2 / 2.54\<close>,
  \<open>m * 7.2 / 25.4\<close> and \<open>m / 18\<close> in the arithmetic of doubles (for \<^verbatim>\<open>pt\<close> a division by 10,
  which is not always the product with 0.1).  So \<^verbatim>\<open>2pt\<close> gives the double 0.2 and \<^verbatim>\<open>1in\<close>
  the double 7.2.  Every input that is not matched gives 0: a numeral with no unit
  behind it as in \<^verbatim>\<open>3xyz\<close>, a literal with text behind it, and a unit without numeral.
\<close>

theorem dimen2em_conversion:
  "(list_all isSpace ws1 \<and> list_all isSpace ws2 \<and> list_all isSpace ws3 \<and> isSignPart sg
      \<and> ip \<noteq> [] \<and> list_all isDigit ip \<and> isFractionPart fr \<and> u \<in> set units
      \<and> UNIT_CASES u = Some f \<longrightarrow>
    dimen2em (ws1 @ sg @ ip @ fr @ ws2 @ u @ ws3) = f (parseFloat (sg @ ip @ replaceComma fr)))
   \<and> (isSignPart sg \<and> isSeparator sep \<and> fp \<noteq> [] \<and> list_all isDigit fp \<and> u \<in> set units
      \<and> UNIT_CASES u = Some f \<longrightarrow>
    dimen2em (sg @ sep # fp @ u) = f (parseFloat (sg @ CHR ''.'' # fp)))
   \<and> (isSignPart sg \<and> ip \<noteq> [] \<and> list_all isDigit ip \<longrightarrow>
    parseFloat (sg @ ip)
      = numberValue ((if sg = ''-'' then - 1 else 1) * of_nat (digitsValue ip)))
   \<and> (isSignPart sg \<and> list_all isDigit ip \<and> list_all isDigit fp \<and> (ip \<noteq> [] \<or> fp \<noteq> []) \<longrightarrow>
    parseFloat (sg @ ip @ CHR ''.'' # fp)
      = numberValue ((if sg = ''-'' then - 1 else 1) * of_nat (digitsValue (ip @ fp))
                     * pow10 (- int (length fp))))
   \<and> UNIT_CASES ''em'' = Some (\<lambda>m. m)
   \<and> UNIT_CASES ''ex'' = Some (\<lambda>m. jsMul m (numberValue (43 / 100)))
   \<and> UNIT_CASES ''pt'' = Some (\<lambda>m. jsDiv m (Finite 10))
   \<and> UNIT_CASES ''pc'' = Some (\<lambda>m. jsMul m (numberValue (12 / 10)))
   \<and> UNIT_CASES ''px'' = Some (\<lambda>m. jsDiv (jsMul m (numberValue (72 / 10))) (Finite 72))
   \<and> UNIT_CASES ''in'' = Some (\<lambda>m. jsMul m (numberValue (72 / 10)))
   \<and> UNIT_CASES ''cm'' = Some (\<lambda>m. jsDiv (jsMul m (numberValue (72 / 10))) (numberValue (254 / 100)))
   \<and> UNIT_CASES ''mm'' = Some (\<lambda>m. jsDiv (jsMul m (numberValue (72 / 10))) (numberValue (254 / 10)))
   \<and> UNIT_CASES ''mu'' = Some (\<lambda>m. jsDiv m (Finite 18))
   \<and> (v \<notin> set units \<longrightarrow> UNIT_CASES v = None)
   \<and> dimen2em ''2pt'' = numberValue (2 / 10)
   \<and> dimen2em ''1in'' = numberValue (72 / 10)
   \<and> dimen2em ''3xyz'' = Finite 0
   \<and> jsMul (Finite 3) (numberValue (1 / 10)) \<noteq> dimen2em ''3pt''
   \<and> (matchDimen dimen False = (None, None, 0) \<longrightarrow> dimen2em dimen = Finite 0)
   \<and> (list_all isSpace ws1 \<and> list_all isSpace ws2 \<and> isSignPart sg \<and> ip \<noteq> []
      \<and> list_all isDigit ip \<and> isFractionPart fr \<and> noNumberAhead (ws2 @ x)
      \<and> (x = [] \<or> \<not> isSpace (hd x)) \<and> take 2 x \<notin> set units \<longrightarrow>
    dimen2em (ws1 @ sg @ ip @ fr @ ws2 @ x) = Finite 0)
   \<and> (list_all isSpace ws1 \<and> list_all isSpace ws2 \<and> isSignPart sg \<and> ip \<noteq> []
      \<and> list_all isDigit ip \<and> isFractionPart fr \<and> u \<in> set units \<and> skipSpaces r \<noteq> [] \<longrightarrow>
    dimen2em (ws1 @ sg @ ip @ fr @ ws2 @ u @ r) = Finite 0)
   \<and> (list_all isSpace ws1 \<and> isSignPart sg \<and> u \<in> set units \<longrightarrow>
    dimen2em (ws1 @ sg @ u @ r) = Finite 0)
   \<and> magnitude None = Finite 1
   \<and> (dimen2em dimen = Finite 0
      \<or> (\<exists>n w g. matchDimen dimen False = (Some n, Some w, length dimen)
                \<and> UNIT_CASES w = Some g \<and> dimen2em dimen = g (magnitude (Some n))))"
proof -
  have 1: "list_all isSpace ws1 \<and> list_all isSpace ws2 \<and> list_all isSpace ws3 \<and> isSignPart sg
      \<and> ip \<noteq> [] \<and> list_all isDigit ip \<and> isFractionPart fr \<and> u \<in> set units
      \<and> UNIT_CASES u = Some f \<longrightarrow>
    dimen2em (ws1 @ sg @ ip @ fr @ ws2 @ u @ ws3) = f (parseFloat (sg @ ip @ replaceComma fr))"
    using dimen2em_numeral [of ws1 ws2 ws3 sg ip fr u f] by blast
  have 2: "isSignPart sg \<and> isSeparator sep \<and> fp \<noteq> [] \<and> list_all isDigit fp \<and> u \<in> set units
      \<and> UNIT_CASES u = Some f \<longrightarrow>
    dimen2em (sg @ sep # fp @ u) = f (parseFloat (sg @ CHR ''.'' # fp))"
    using dimen2em_leading_separator [of "[]" "[]" "[]" sg sep fp u f] by simp
  have 3: "isSignPart sg \<and> ip \<noteq> [] \<and> list_all isDigit ip \<longrightarrow>
    parseFloat (sg @ ip)
      = numberValue ((if sg = ''-'' then - 1 else 1) * of_nat (digitsValue ip))"
    using parseFloat_integer [of sg ip] by blast
  have 4: "isSignPart sg \<and> list_all isDigit ip \<and> list_all isDigit fp \<and> (ip \<noteq> [] \<or> fp \<noteq> []) \<longrightarrow>
    parseFloat (sg @ ip @ CHR ''.'' # fp)
      = numberValue ((if sg = ''-'' then - 1 else 1) * of_nat (digitsValue (ip @ fp))
                     * pow10 (- int (length fp)))"
    using parseFloat_decimal [of sg ip fp] by blast
  have 5: "v \<notin> set units \<longrightarrow> UNIT_CASES v = None"
    using UNIT_CASES_other by blast
  have 6: "matchDimen dimen False = (None, None, 0) \<longrightarrow> dimen2em dimen = Finite 0"
    using dimen2em_no_match by blast
  have 7: "list_all isSpace ws1 \<and> list_all isSpace ws2 \<and> isSignPart sg \<and> ip \<noteq> []
      \<and> list_all isDigit ip \<and> isFractionPart fr \<and> noNumberAhead (ws2 @ x)
      \<and> (x = [] \<or> \<not> isSpace (hd x)) \<and> take 2 x \<notin> set units \<longrightarrow>
    dimen2em (ws1 @ sg @ ip @ fr @ ws2 @ x) = Finite 0"
    using dimen2em_no_unit [of ws1 ws2 sg ip fr x] by blast
  have 8: "list_all isSpace ws1 \<and> list_all isSpace ws2 \<and> isSignPart sg \<and> ip \<noteq> []
      \<and> list_all isDigit ip \<and> isFractionPart fr \<and> u \<in> set units \<and> skipSpaces r \<noteq> [] \<longrightarrow>
    dimen2em (ws1 @ sg @ ip @ fr @ ws2 @ u @ r) = Finite 0"
    using dimen2em_trailing [of ws1 ws2 sg ip fr u r] by blast
  have 9: "list_all isSpace ws1 \<and> isSignPart sg \<and> u \<in> set units \<longrightarrow>
    dimen2em (ws1 @ sg @ u @ r) = Finite 0"
    using dimen2em_no_numeral [of ws1 sg u r] by blast
  have 10: "dimen2em dimen = Finite 0
      \<or> (\<exists>n w g. matchDimen dimen False = (Some n, Some w, length dimen)
                \<and> UNIT_CASES w = Some g \<and> dimen2em dimen = g (magnitude (Some n)))"
    by (rule dimen2em_total)
  show ?thesis
    by (intro conjI 1 2 3 4 UNIT_CASES_table 5 dimen2em_2pt dimen2em_1in dimen2em_3xyz
        pt_not_tenth 6 7 8 9 magnitude_default 10)
qed

theorem dimen2em_conversion_witness:
  "dimen2em '' -12,5 pt '' = jsDiv (parseFloat ''-12.5'') (Finite 10)
   \<and> dimen2em ''-.75pt'' = jsDiv (parseFloat ''-.75'') (Finite 10)
   \<and> parseFloat ''-12'' = numberValue (- 12)
   \<and> parseFloat ''-12.75'' = numberValue (- (1275 / 100))
   \<and> UNIT_CASES ''xy'' = None
   \<and> dimen2em ''3xyz'' = Finite 0
   \<and> dimen2em '' -12,5 xyz'' = Finite 0
   \<and> dimen2em '' -12,5 ptx'' = Finite 0
   \<and> dimen2em '' -ptx'' = Finite 0"
proof -
  have a: "isSpace (CHR '' '')" "isSignPart ''-''" "isDigit (CHR ''1'')" "isDigit (CHR ''2'')"
    "isDigit (CHR ''7'')" "isDigit (CHR ''5'')"
    "isFractionPart '',5''" "''pt'' \<in> set units" "isSeparator (CHR ''.'')"
    "''xy'' \<notin> set units" "noNumberAhead '' xyz''" "\<not> isSpace (CHR ''x'')"
    "skipSpaces ''x'' \<noteq> []"
    by (simp_all add: isSpace_def isSignPart_def isDigit_def isFractionPart_def isSeparator_def
        units_def noNumberAhead_def skipSpaces_def)
  have b: "matchDimen ''3xyz'' False = (None, None, 0)"
    by code_simp
  have c: "digitsValue ''12'' = 12" "digitsValue ''1275'' = 1275"
    by (simp_all add: digitsValue_def digitVal_def)
  have d: "pow10 (- 2) = 1 / 100"
    by (simp add: pow10_def)
  show ?thesis
    using dimen2em_conversion [where ?ws1.0 = "'' ''" and ?ws2.0 = "'' ''" and ?ws3.0 = "'' ''"
        and sg = "''-''" and ip = "''12''" and fr = "'',5''" and u = "''pt''"
        and f = "\<lambda>m. jsDiv m (Finite 10)" and sep = "CHR ''.''" and fp = "''75''"
        and v = "''xy''" and dimen = "''3xyz''" and x = "''xyz''" and r = "''x''"]
    by (simp add: a b c d)
qed

text \<open>
  Claim C9, as stated, fails for a magnitude from \<open>10 ^ 21\<close> on: there \<^verbatim>\<open>toFixed\<close> gives
  the exponent notation of \<^verbatim>\<open>toString\<close>, no decimals, so \<open>Em\<close> of \<open>10 ^ 21\<close> is
  \<^verbatim>\<open>1e+21em\<close> and not the digits of \<open>10 ^ 21\<close> before the unit.
\<close>

theorem Em_rendering_counterexample:
  "Em (Finite (10 ^ 21)) = ''1e+21em''
   \<and> Em (Finite (10 ^ 21)) \<noteq> showNat (10 ^ 21) @ ''em''"
proof -
  have 1: "Em (Finite (10 ^ 21)) = ''1e+21em''"
    by (rule Em_1e21)
  have 2: "showNat (10 ^ 21) = ''1000000000000000000000''"
    using showNat_1e21 by simp
  show ?thesis
    unfolding 1 2 by simp
qed

text \<open>
  Claim C9, amended.  \<open>Em\<close> gives \<^verbatim>\<open>0em\<close> for every magnitude whose absolute value is below
  the double nearest to 0.0006, which is \<open>5534023222112865 / 2 ^ 63\<close>.  For every other
  finite magnitude \<open>x\<close> below \<open>10 ^ 21\<close> in absolute value the result is made of a minus
  sign if \<open>x\<close> is negative, the digits of \<open>n div 1000\<close>, the point with the last three
  digits of \<open>n\<close> without the zeros at their end (nothing if all three are zero), and
  \<^verbatim>\<open>em\<close>, where \<open>n\<close> is the integer nearest to \<open>1000 * \<bar>x\<bar>\<close>, the larger one of two.  So
  0.00059 gives \<^verbatim>\<open>0em\<close>, 1 gives \<^verbatim>\<open>1em\<close> and 1.25 gives \<^verbatim>\<open>1.25em\<close>.
\<close>

theorem Em_rendering:
  "(jsLess (jsAbs m) (numberValue (6 / 10000)) \<longrightarrow> Em m = ''0em'')
   \<and> numberValue (6 / 10000) = Finite (5534023222112865 / 9223372036854775808)
   \<and> (\<bar>x\<bar> < 5534023222112865 / 9223372036854775808 \<longrightarrow> Em (Finite x) = ''0em'')
   \<and> (5534023222112865 / 9223372036854775808 \<le> \<bar>y\<bar> \<and> \<bar>y\<bar> < 10 ^ 21 \<longrightarrow>
       Em (Finite y)
         = (if y < 0 then ''-'' else []) @ showNat (nat \<lfloor>\<bar>y\<bar> * 1000 + 1 / 2\<rfloor> div 1000)
           @ decimals3 (nat \<lfloor>\<bar>y\<bar> * 1000 + 1 / 2\<rfloor>) @ ''em'')
   \<and> Em (numberValue (59 / 100000)) = ''0em''
   \<and> Em (numberValue 1) = ''1em''
   \<and> Em (numberValue (125 / 100)) = ''1.25em''"
proof -
  have 1: "jsLess (jsAbs m) (numberValue (6 / 10000)) \<longrightarrow> Em m = ''0em''"
    using Em_small by blast
  have 2: "numberValue (6 / 10000) = Finite (5534023222112865 / 9223372036854775808)"
    by (rule nv_00006)
  have 3: "\<bar>x\<bar> < 5534023222112865 / 9223372036854775808 \<longrightarrow> Em (Finite x) = ''0em''"
    using Em_small_finite by blast
  have 4: "5534023222112865 / 9223372036854775808 \<le> \<bar>y\<bar> \<and> \<bar>y\<bar> < 10 ^ 21 \<longrightarrow>
       Em (Finite y)
         = (if y < 0 then ''-'' else []) @ showNat (nat \<lfloor>\<bar>y\<bar> * 1000 + 1 / 2\<rfloor> div 1000)
           @ decimals3 (nat \<lfloor>\<bar>y\<bar> * 1000 + 1 / 2\<rfloor>) @ ''em''"
    using Em_render [of y] by blast
  show ?thesis
    by (intro conjI 1 2 3 4 Em_examples)
qed

theorem Em_rendering_witness:
  "Em (Finite (1 / 10000)) = ''0em'' \<and> Em (Finite (- (1 / 10000))) = ''0em''
   \<and> Em (Finite (- (5 / 4))) = ''-1.25em''"
proof -
  have a: "jsLess (jsAbs (Finite (1 / 10000))) (numberValue (6 / 10000))"
    unfolding nv_00006 by (simp add: jsLess_def jsAbs_def)
  have f: "\<lfloor>2501 / 2::rat\<rfloor> = 1250"
    by (intro floor_unique) simp_all
  show ?thesis
    using Em_rendering [where m = "Finite (1 / 10000)" and x = "- (1 / 10000)" and y = "- (5 / 4)"] a
    by (simp add: f showNat.simps decimals3_def digitChar_def)
qed

end
